theory Spec2Isabelle
  imports Complex_Main "HOL-Library.AList"
begin

section \<open>KeyVisualizer: the display-state tracker\<close>

text \<open>
  The embedding follows \<^verbatim>\<open>src/keyVisualizer.py\<close>. Python dictionaries keep their
  insertion order, and \<^verbatim>\<open>KeyOverlay.add_key\<close> iterates over one, so a dictionary is an
  association list: \<open>AList.update\<close> overwrites a key in place or appends a new one at
  the end, \<open>AList.delete\<close> removes it, \<open>map_of\<close> reads it.

  Python strings are \<open>string\<close>, read as UTF-8 bytes. Python floats (opacity, fade
  speed) are exact rationals: rounding is outside the model.
\<close>

datatype error = IndexError | KeyError | ValueError | TypeError | JSONDecodeError

definition py_in :: "'k \<Rightarrow> ('k \<times> 'v) list \<Rightarrow> bool" where
  "py_in k d = (map_of d k \<noteq> None)"

subsection \<open>KeyBubble and KeyOverlay\<close>

text \<open>
  A \<^verbatim>\<open>KeyBubble\<close> is a widget object that \<^verbatim>\<open>key_bubbles\<close> and \<^verbatim>\<open>active_keys\<close> share and
  whose opacity is mutated through either, so bubbles live in a store and the two
  containers hold references. Widgets compare by identity. Of the configuration the
  tracker reads only \<^verbatim>\<open>max_keys\<close> and \<^verbatim>\<open>fade_speed\<close>; sizes, colours and positions are
  layout and are left out, as are \<^verbatim>\<open>layout_bubbles\<close>, \<^verbatim>\<open>show\<close> and \<^verbatim>\<open>deleteLater\<close>.
  A timer in \<^verbatim>\<open>fade_timers\<close> is its interval in milliseconds; a timer is stopped exactly
  when it leaves the dictionary.
\<close>

record KeyBubble =
  key_text :: string
  opacity :: rat

record Config =
  max_keys :: int
  fade_speed :: rat

record KeyOverlay =
  config :: Config
  key_bubbles :: "nat list"
  fade_timers :: "(string \<times> nat) list"
  active_keys :: "(string \<times> nat) list"
  combo_key_map :: "(string \<times> string) list"
  store :: "nat \<Rightarrow> KeyBubble"
  next_ref :: nat

definition KeyOverlay_init :: "Config \<Rightarrow> KeyOverlay" where
  "KeyOverlay_init cfg =
     \<lparr>config = cfg, key_bubbles = [], fade_timers = [], active_keys = [],
      combo_key_map = [],
      store = (\<lambda>_. \<lparr>key_text = [], opacity = 0\<rparr>), next_ref = 0\<rparr>"

text \<open>
  The search of \<^verbatim>\<open>add_key\<close> for the key of the evicted bubble:
  \<^verbatim>\<open>for k, v in self.active_keys.items(): if v == old_bubble: key_to_remove = k; break\<close>.
\<close>

fun find_key :: "(string \<times> nat) list \<Rightarrow> nat \<Rightarrow> string option" where
  "find_key [] b = None"
| "find_key ((k, v) # kvs) b = (if v = b then Some k else find_key kvs b)"

text \<open>
  One pass of the body of \<^verbatim>\<open>while len(self.key_bubbles) > max_keys\<close>, after the
  \<^verbatim>\<open>pop(0)\<close>. The test \<^verbatim>\<open>if key_to_remove:\<close> is a truth test: it fails for \<^verbatim>\<open>None\<close> and
  for the empty string.
\<close>

definition evict_one :: "KeyOverlay \<Rightarrow> nat \<Rightarrow> nat list \<Rightarrow> KeyOverlay" where
  "evict_one s old_bubble rest =
     (let s1 = s\<lparr>key_bubbles := rest\<rparr> in
      case find_key (active_keys s1) old_bubble of
        None \<Rightarrow> s1
      | Some key_to_remove \<Rightarrow>
          if key_to_remove = [] then s1
          else s1\<lparr>active_keys := AList.delete key_to_remove (active_keys s1),
                  fade_timers :=
                    (if py_in key_to_remove (fade_timers s1)
                     then AList.delete key_to_remove (fade_timers s1)
                     else fade_timers s1)\<rparr>)"

function evict :: "KeyOverlay \<Rightarrow> error + KeyOverlay" where
  "evict s =
     (if int (length (key_bubbles s)) > max_keys (config s) then
        (case key_bubbles s of
           [] \<Rightarrow> Inl IndexError
         | old_bubble # rest \<Rightarrow> evict (evict_one s old_bubble rest))
      else Inr s)"
  by pat_completeness auto
termination
  by (relation "measure (\<lambda>s. length (key_bubbles s))")
     (auto simp: evict_one_def Let_def split: option.split)

declare evict.simps [simp del]

definition add_key :: "KeyOverlay \<Rightarrow> string \<Rightarrow> error + KeyOverlay" where
  "add_key s key_name =
     (case map_of (active_keys s) key_name of
        Some bubble \<Rightarrow>
          Inr (s\<lparr>store := (store s)(bubble := (store s bubble)\<lparr>opacity := 1\<rparr>),
                 fade_timers :=
                   (if py_in key_name (fade_timers s)
                    then AList.delete key_name (fade_timers s)
                    else fade_timers s)\<rparr>)
      | None \<Rightarrow>
          (let bubble = next_ref s in
           evict (s\<lparr>store := (store s)(bubble := \<lparr>key_text = key_name, opacity = 1\<rparr>),
                     next_ref := Suc bubble,
                     key_bubbles := key_bubbles s @ [bubble],
                     active_keys := AList.update key_name bubble (active_keys s)\<rparr>)))"

definition start_fade :: "KeyOverlay \<Rightarrow> string \<Rightarrow> KeyOverlay" where
  "start_fade s key_name =
     (if \<not> py_in key_name (active_keys s) then s
      else if \<not> py_in key_name (fade_timers s)
           then s\<lparr>fade_timers := AList.update key_name 50 (fade_timers s)\<rparr>
           else s)"

definition release_key :: "KeyOverlay \<Rightarrow> string \<Rightarrow> KeyOverlay" where
  "release_key s key_name =
     (case map_of (combo_key_map s) key_name of
        Some combo \<Rightarrow>
          (let s1 = start_fade s combo;
               keys_to_remove = map fst (filter (\<lambda>(k, v). v = combo) (combo_key_map s1))
           in s1\<lparr>combo_key_map := fold AList.delete keys_to_remove (combo_key_map s1)\<rparr>)
      | None \<Rightarrow> start_fade s key_name)"

text \<open>\<^verbatim>\<open>str.split(sep)\<close> for a separator of one character.\<close>

fun py_split :: "char \<Rightarrow> string \<Rightarrow> string list" where
  "py_split sep [] = [[]]"
| "py_split sep (c # cs) =
     (if c = sep then [] # py_split sep cs
      else (case py_split sep cs of
              [] \<Rightarrow> [[c]]
            | p # ps \<Rightarrow> (c # p) # ps))"

text \<open>The body of the first loop of \<^verbatim>\<open>show_combo\<close>, for one \<^verbatim>\<open>part\<close>.\<close>

definition remove_part :: "string \<Rightarrow> KeyOverlay \<Rightarrow> KeyOverlay" where
  "remove_part part s =
     (case map_of (active_keys s) part of
        None \<Rightarrow> s
      | Some bubble \<Rightarrow>
          s\<lparr>fade_timers :=
              (if py_in part (fade_timers s) then AList.delete part (fade_timers s)
               else fade_timers s),
            key_bubbles :=
              (if bubble \<in> set (key_bubbles s) then remove1 bubble (key_bubbles s)
               else key_bubbles s),
            active_keys := AList.delete part (active_keys s)\<rparr>)"

definition show_combo :: "KeyOverlay \<Rightarrow> string \<Rightarrow> error + KeyOverlay" where
  "show_combo s combo =
     (let parts = py_split CHR ''+'' combo;
          s1 = fold remove_part (butlast parts) s;
          s2 = s1\<lparr>combo_key_map :=
                    fold (\<lambda>part m. AList.update part combo m) parts (combo_key_map s1)\<rparr>
      in add_key s2 combo)"

text \<open>
  The per-tick decrement of \<^verbatim>\<open>fade_key\<close>, its local \<^verbatim>\<open>fade_speed\<close>:
  \<^verbatim>\<open>self.config['fade_speed'] / 1000.0 * 50\<close>. When the opacity reaches zero,
  \<^verbatim>\<open>self.fade_timers[key_name].stop()\<close> raises \<^verbatim>\<open>KeyError\<close> for a key without a timer.
\<close>

definition fade_rate :: "Config \<Rightarrow> rat" where
  "fade_rate cfg = fade_speed cfg / 1000 * 50"

definition fade_key :: "KeyOverlay \<Rightarrow> string \<Rightarrow> error + KeyOverlay" where
  "fade_key s key_name =
     (case map_of (active_keys s) key_name of
        None \<Rightarrow>
          Inr (if py_in key_name (fade_timers s)
               then s\<lparr>fade_timers := AList.delete key_name (fade_timers s)\<rparr>
               else s)
      | Some bubble \<Rightarrow>
          (let s1 = s\<lparr>store := (store s)(bubble := (store s bubble)
                         \<lparr>opacity := opacity (store s bubble) - fade_rate (config s)\<rparr>)\<rparr>
           in if opacity (store s1 bubble) \<le> 0 then
                (if \<not> py_in key_name (fade_timers s1) then Inl KeyError
                 else Inr (s1\<lparr>fade_timers := AList.delete key_name (fade_timers s1),
                              active_keys := AList.delete key_name (active_keys s1),
                              key_bubbles :=
                                (if bubble \<in> set (key_bubbles s1)
                                 then remove1 bubble (key_bubbles s1)
                                 else key_bubbles s1)\<rparr>))
              else Inr s1))"

definition update_config :: "KeyOverlay \<Rightarrow> Config \<Rightarrow> KeyOverlay" where
  "update_config s cfg =
     s\<lparr>config := cfg, key_bubbles := [], active_keys := [], combo_key_map := [],
       fade_timers := []\<rparr>"

text \<open>A sequence of \<^verbatim>\<open>add_key\<close> calls; an exception ends it.\<close>

fun add_keys :: "KeyOverlay \<Rightarrow> string list \<Rightarrow> error + KeyOverlay" where
  "add_keys s [] = Inr s"
| "add_keys s (k # ks) =
     (case add_key s k of Inl e \<Rightarrow> Inl e | Inr s' \<Rightarrow> add_keys s' ks)"


text \<open>
  Consistency of the display state: the values of \<^verbatim>\<open>active_keys\<close> are exactly the elements
  of \<^verbatim>\<open>key_bubbles\<close>, one key per bubble and one bubble per key, and every key with a fade
  timer is in \<^verbatim>\<open>active_keys\<close>.
\<close>

definition consistent :: "KeyOverlay \<Rightarrow> bool" where
  "consistent s =
     (snd ` set (active_keys s) = set (key_bubbles s) \<and>
      distinct (map snd (active_keys s)) \<and>
      distinct (map fst (active_keys s)) \<and>
      distinct (key_bubbles s) \<and>
      fst ` set (fade_timers s) \<subseteq> fst ` set (active_keys s))"

text \<open>
  What every state of a running overlay satisfies besides: a reference in use was
  allocated before \<^verbatim>\<open>next_ref\<close>, and no shown key is the empty string (the listeners emit
  no empty name).
\<close>

definition well_formed :: "KeyOverlay \<Rightarrow> bool" where
  "well_formed s =
     (consistent s \<and> list_all (\<lambda>b. b < next_ref s) (key_bubbles s) \<and>
      [] \<notin> fst ` set (active_keys s))"

text \<open>
  The calls an overlay receives while the application runs: the slots
  \<^verbatim>\<open>on_key_pressed\<close> and \<^verbatim>\<open>on_click_pressed\<close> call \<^verbatim>\<open>add_key\<close>, \<^verbatim>\<open>on_key_released\<close> and
  \<^verbatim>\<open>on_click_released\<close> call \<^verbatim>\<open>release_key\<close>, \<^verbatim>\<open>on_combo_pressed\<close> calls \<^verbatim>\<open>show_combo\<close>, the
  settings dialog calls \<^verbatim>\<open>update_config\<close>, and the timer that \<^verbatim>\<open>_start_fade\<close> stores under a
  key calls \<^verbatim>\<open>fade_key\<close> for that key every 50 ms. A timer that is stopped and deleted
  fires no more, so a tick for a key without a timer is no call at all.
\<close>

datatype overlay_op =
  AddKey string | ReleaseKey string | ShowCombo string | TimerTick string
  | UpdateConfig Config

fun apply_op :: "KeyOverlay \<Rightarrow> overlay_op \<Rightarrow> error + KeyOverlay" where
  "apply_op s (AddKey key_name) = add_key s key_name"
| "apply_op s (ReleaseKey key_name) = Inr (release_key s key_name)"
| "apply_op s (ShowCombo combo) = show_combo s combo"
| "apply_op s (TimerTick key_name) =
     (if py_in key_name (fade_timers s) then fade_key s key_name else Inr s)"
| "apply_op s (UpdateConfig cfg) = Inr (update_config s cfg)"

fun run_ops :: "KeyOverlay \<Rightarrow> overlay_op list \<Rightarrow> error + KeyOverlay" where
  "run_ops s [] = Inr s"
| "run_ops s (x # xs) =
     (case apply_op s x of Inl e \<Rightarrow> Inl e | Inr s' \<Rightarrow> run_ops s' xs)"

text \<open>
  The names the listeners emit are not empty: the labels of \<^verbatim>\<open>KEY_DISPLAY_NAMES\<close>,
  \<^verbatim>\<open>get_key_from_vk\<close> and \<^verbatim>\<open>MOUSE_BUTTON_NAMES\<close>, a truthy \<^verbatim>\<open>key.char\<close>, the name of a pynput
  \<^verbatim>\<open>Key\<close> member, and a combination that ends in such a label.
\<close>

fun named :: "overlay_op \<Rightarrow> bool" where
  "named (AddKey key_name) = (key_name \<noteq> [])"
| "named (ShowCombo combo) = (combo \<noteq> [])"
| "named (ReleaseKey key_name) = True"
| "named (TimerTick key_name) = True"
| "named (UpdateConfig cfg) = True"

text \<open>A new configuration whose \<^verbatim>\<open>max_keys\<close> is not negative, as the settings dialog gives.\<close>

fun not_negative :: "overlay_op \<Rightarrow> bool" where
  "not_negative (UpdateConfig cfg) = (0 \<le> max_keys cfg)"
| "not_negative (AddKey key_name) = True"
| "not_negative (ShowCombo combo) = True"
| "not_negative (ReleaseKey key_name) = True"
| "not_negative (TimerTick key_name) = True"

section \<open>Input normalization\<close>

text \<open>
  A pynput key, as the two functions read it: its \<^verbatim>\<open>str()\<close>, the attribute \<^verbatim>\<open>char\<close>
  (absent, \<^verbatim>\<open>None\<close> or a string), the attribute \<^verbatim>\<open>vk\<close> (absent, \<^verbatim>\<open>None\<close> or an integer)
  and whether it has an attribute \<^verbatim>\<open>_scan\<close>. A virtual-key code is an \<open>int\<close>, so the
  conversion \<^verbatim>\<open>int(vk)\<close> of a code that is not one has no counterpart here.

  \<^verbatim>\<open>str.isalpha\<close>, \<^verbatim>\<open>str.upper\<close>, \<^verbatim>\<open>str.isprintable\<close> and \<^verbatim>\<open>str.title\<close> read the Unicode
  tables of the interpreter; they are parameters of the model.
\<close>

record Key =
  key_str :: string
  char_attr :: "string option option"
  vk_attr :: "int option option"
  has_scan :: bool

record str_ops =
  isalpha :: "string \<Rightarrow> bool"
  upper :: "string \<Rightarrow> string"
  isprintable :: "string \<Rightarrow> bool"
  title :: "string \<Rightarrow> string"

definition KEY_DISPLAY_NAMES :: "(string \<times> string) list" where
  "KEY_DISPLAY_NAMES =
    [(''Key.space'', ''Space''), (''Key.enter'', ''Enter''), (''Key.tab'', ''Tab''),
     (''Key.backspace'', ''Backspace''), (''Key.delete'', ''Delete''),
     (''Key.escape'', ''Esc''), (''Key.shift'', ''Shift''), (''Key.shift_r'', ''Shift''),
     (''Key.ctrl'', ''Ctrl''), (''Key.ctrl_l'', ''Ctrl''), (''Key.ctrl_r'', ''Ctrl''),
     (''Key.alt'', ''Alt''), (''Key.alt_l'', ''Alt''), (''Key.alt_r'', ''Alt''),
     (''Key.alt_gr'', ''AltGr''), (''Key.cmd'', ''Win''), (''Key.cmd_l'', ''Win''),
     (''Key.cmd_r'', ''Win''), (''Key.caps_lock'', ''CapsLock''),
     (''Key.num_lock'', ''NumLock''), (''Key.scroll_lock'', ''ScrollLock''),
     (''Key.print_screen'', ''PrtSc''), (''Key.pause'', ''Pause''),
     (''Key.insert'', ''Insert''), (''Key.home'', ''Home''), (''Key.end'', ''End''),
     (''Key.page_up'', ''PgUp''), (''Key.page_down'', ''PgDn''),
     (''Key.up'', [CHR 0xE2, CHR 0x86, CHR 0x91]),
     (''Key.down'', [CHR 0xE2, CHR 0x86, CHR 0x93]),
     (''Key.left'', [CHR 0xE2, CHR 0x86, CHR 0x90]),
     (''Key.right'', [CHR 0xE2, CHR 0x86, CHR 0x92]),
     (''Key.f1'', ''F1''), (''Key.f2'', ''F2''), (''Key.f3'', ''F3''), (''Key.f4'', ''F4''),
     (''Key.f5'', ''F5''), (''Key.f6'', ''F6''), (''Key.f7'', ''F7''), (''Key.f8'', ''F8''),
     (''Key.f9'', ''F9''), (''Key.f10'', ''F10''), (''Key.f11'', ''F11''),
     (''Key.f12'', ''F12''), (''Key.menu'', ''Menu'')]"

definition startswith :: "string \<Rightarrow> string \<Rightarrow> bool" where
  "startswith s pre = (take (length pre) s = pre)"

definition replace_char :: "char \<Rightarrow> char \<Rightarrow> string \<Rightarrow> string" where
  "replace_char old new s = map (\<lambda>c. if c = old then new else c) s"

definition get_key_name :: "str_ops \<Rightarrow> Key \<Rightarrow> string option" where
  "get_key_name U key =
     (let key_str = key_str key;
          special =
            (if startswith key_str ''Key.''
             then Some (title U (replace_char CHR ''_'' CHR '' '' (drop 4 key_str)))
             else None)
      in if py_in key_str KEY_DISPLAY_NAMES then map_of KEY_DISPLAY_NAMES key_str
         else (case char_attr key of
                 Some (Some char) \<Rightarrow>
                   if char \<noteq> [] then
                     (if isalpha U char then Some (upper U char)
                      else if isprintable U char then Some char
                      else None)
                   else special
               | _ \<Rightarrow> special))"

text \<open>
  \<^verbatim>\<open>chr(i)\<close> raises \<^verbatim>\<open>ValueError\<close> outside \<^verbatim>\<open>range(0x110000)\<close>; the string it returns is
  the UTF-8 encoding of the code point.
\<close>

definition utf8 :: "nat \<Rightarrow> string" where
  "utf8 n =
     (if n < 0x80 then [char_of n]
      else if n < 0x800 then [char_of (0xC0 + n div 64), char_of (0x80 + n mod 64)]
      else if n < 0x10000 then
        [char_of (0xE0 + n div 4096), char_of (0x80 + n div 64 mod 64),
         char_of (0x80 + n mod 64)]
      else
        [char_of (0xF0 + n div 262144), char_of (0x80 + n div 4096 mod 64),
         char_of (0x80 + n div 64 mod 64), char_of (0x80 + n mod 64)])"

definition py_chr :: "int \<Rightarrow> error + string" where
  "py_chr i = (if 0 \<le> i \<and> i < 0x110000 then Inr (utf8 (nat i)) else Inl ValueError)"

text \<open>\<^verbatim>\<open>str(i)\<close> of an integer: its decimal digits, with a sign.\<close>

fun digits :: "nat \<Rightarrow> string" where
  "digits n = (if n < 10 then [char_of (48 + n)] else digits (n div 10) @ [char_of (48 + n mod 10)])"

declare digits.simps [simp del]

definition py_str :: "int \<Rightarrow> string" where
  "py_str i = (if i < 0 then CHR ''-'' # digits (nat (- i)) else digits (nat i))"

definition numpad_map :: "(int \<times> string) list" where
  "numpad_map = [(0x6A, ''*''), (0x6B, ''+''), (0x6D, ''-''), (0x6E, ''.''), (0x6F, ''/'')]"

definition vk_map :: "(int \<times> string) list" where
  "vk_map =
    [(0xBB, ''=''), (0xBC, '',''), (0xBD, ''-''), (0xBE, ''.''), (0xBF, ''/''),
     (0xBA, '';''), (0xDB, ''[''), (0xDC, [CHR 0x5C]), (0xDD, '']''), (0xDE, [CHR 0x27]),
     (0xC0, [CHR 0x60])]"

definition returning :: "error + string \<Rightarrow> error + string option" where
  "returning r = (case r of Inl e \<Rightarrow> Inl e | Inr label \<Rightarrow> Inr (Some label))"

definition get_key_from_vk :: "Key \<Rightarrow> error + string option" where
  "get_key_from_vk key =
     (let vk =
        (case vk_attr key of
           Some (Some v) \<Rightarrow> Some v
         | _ \<Rightarrow>
             if has_scan key then (case vk_attr key of Some v \<Rightarrow> v | None \<Rightarrow> None)
             else None)
      in case vk of
           None \<Rightarrow> Inr None
         | Some vk \<Rightarrow>
             if 0x41 \<le> vk \<and> vk \<le> 0x5A then returning (py_chr vk)
             else if 0x30 \<le> vk \<and> vk \<le> 0x39 then returning (py_chr vk)
             else if 0x60 \<le> vk \<and> vk \<le> 0x69 then Inr (Some (py_str (vk - 0x60)))
             else if py_in vk numpad_map then Inr (map_of numpad_map vk)
             else if py_in vk vk_map then Inr (map_of vk_map vk)
             else if 0x70 \<le> vk \<and> vk \<le> 0x7B then Inr (Some (''F'' @ py_str (vk - 0x6F)))
             else if 0x20 \<le> vk \<and> vk \<le> 0x7E then returning (py_chr vk)
             else Inr None)"

subsection \<open>KeyboardListener\<close>

definition MODIFIER_KEYS :: "string set" where
  "MODIFIER_KEYS = {''Ctrl'', ''Alt'', ''Shift'', ''Win'', ''AltGr''}"

record KeyboardListener =
  active_modifiers :: "string set"

datatype signal = key_pressed string | key_released string | combo_pressed string

text \<open>\<^verbatim>\<open>sep.join(parts)\<close>.\<close>

fun py_join :: "string \<Rightarrow> string list \<Rightarrow> string" where
  "py_join sep [] = []"
| "py_join sep [x] = x"
| "py_join sep (x # y # ys) = x @ sep @ py_join sep (y # ys)"

text \<open>
  The first lines of both handlers: \<^verbatim>\<open>get_key_name\<close>, and \<^verbatim>\<open>get_key_from_vk\<close> when it
  gives \<^verbatim>\<open>None\<close>.
\<close>

definition normalize_key :: "str_ops \<Rightarrow> Key \<Rightarrow> error + string option" where
  "normalize_key U key =
     (case get_key_name U key of
        Some key_name \<Rightarrow> Inr (Some key_name)
      | None \<Rightarrow> get_key_from_vk key)"

text \<open>A handler returns the signals it emits, in order, and the listener it leaves.\<close>

definition on_press ::
  "str_ops \<Rightarrow> KeyboardListener \<Rightarrow> Key \<Rightarrow> error + (signal list \<times> KeyboardListener)" where
  "on_press U l key =
     (case normalize_key U key of
        Inl e \<Rightarrow> Inl e
      | Inr None \<Rightarrow> Inr ([], l)
      | Inr (Some key_name) \<Rightarrow>
          if key_name \<in> MODIFIER_KEYS then
            Inr ([key_pressed key_name],
                 l\<lparr>active_modifiers := insert key_name (active_modifiers l)\<rparr>)
          else if active_modifiers l \<noteq> {} then
            (let combo_parts =
                   fold (\<lambda>m parts. if m \<in> active_modifiers l then parts @ [m] else parts)
                     [''Ctrl'', ''Alt'', ''Shift'', ''Win''] [];
                 combo_parts = combo_parts @ [key_name];
                 combo_str = py_join ''+'' combo_parts
             in Inr ([combo_pressed combo_str], l))
          else Inr ([key_pressed key_name], l))"

definition on_release ::
  "str_ops \<Rightarrow> KeyboardListener \<Rightarrow> Key \<Rightarrow> error + (signal list \<times> KeyboardListener)" where
  "on_release U l key =
     (case normalize_key U key of
        Inl e \<Rightarrow> Inl e
      | Inr None \<Rightarrow> Inr ([], l)
      | Inr (Some key_name) \<Rightarrow>
          Inr ([key_released key_name],
               if key_name \<in> MODIFIER_KEYS
               then l\<lparr>active_modifiers := active_modifiers l - {key_name}\<rparr>
               else l))"

text \<open>
  The four string methods restricted to ASCII, where they need no table: an instance of
  the parameters for worked examples.
\<close>

definition ascii_upper :: "char \<Rightarrow> char" where
  "ascii_upper c =
     (if 97 \<le> (of_char c :: nat) \<and> (of_char c :: nat) \<le> 122
      then char_of (of_char c - (32::nat)) else c)"

definition ascii_lower :: "char \<Rightarrow> char" where
  "ascii_lower c =
     (if 65 \<le> (of_char c :: nat) \<and> (of_char c :: nat) \<le> 90
      then char_of (of_char c + (32::nat)) else c)"

definition ascii_letter :: "char \<Rightarrow> bool" where
  "ascii_letter c =
     (97 \<le> (of_char c :: nat) \<and> (of_char c :: nat) \<le> 122 \<or>
      65 \<le> (of_char c :: nat) \<and> (of_char c :: nat) \<le> 90)"

fun ascii_title :: "bool \<Rightarrow> string \<Rightarrow> string" where
  "ascii_title prev [] = []"
| "ascii_title prev (c # cs) =
     (if ascii_letter c
      then (if prev then ascii_lower c else ascii_upper c) # ascii_title True cs
      else c # ascii_title False cs)"

definition ascii_ops :: str_ops where
  "ascii_ops =
     \<lparr>isalpha = (\<lambda>s. s \<noteq> [] \<and> list_all ascii_letter s),
      upper = map ascii_upper,
      isprintable = list_all (\<lambda>c. 32 \<le> (of_char c :: nat) \<and> (of_char c :: nat) \<le> 126),
      title = ascii_title False\<rparr>"

section \<open>Settings persistence\<close>

text \<open>
  A decoded JSON value. The configuration is a dictionary from option names to such
  values. \<^verbatim>\<open>json.loads\<close>, \<^verbatim>\<open>json.dumps\<close> and \<^verbatim>\<open>dict.update\<close> with an argument that is not a
  dictionary (CPython then reads the argument as a sequence of key/value pairs) are
  library code and parameters of the model: \<^verbatim>\<open>update_from_seq\<close> gives the dictionary such
  an update leaves behind and the exception it raises, if any.
\<close>

datatype json =
  JNull | JBool bool | JInt int | JFloat rat | JStr string
  | JArr "json list" | JObj "(string \<times> json) list"

record pylib =
  json_loads :: "string \<Rightarrow> error + json"
  json_dumps :: "json \<Rightarrow> string"
  update_from_seq :: "(string \<times> json) list \<Rightarrow> json \<Rightarrow> (string \<times> json) list \<times> error option"

definition DEFAULT_CONFIG :: "(string \<times> json) list" where
  "DEFAULT_CONFIG =
    [(''bg_color'', JStr ''#2b2b2b''),
     (''text_color'', JStr ''#ffffff''),
     (''border_color'', JStr ''#555555''),
     (''show_border'', JBool True),
     (''font_family'', JStr ''Segoe UI''),
     (''font_size'', JInt 20),
     (''font_bold'', JBool True),
     (''padding'', JInt 15),
     (''min_bubble_width'', JInt 55),
     (''border_radius'', JInt 25),
     (''border_width'', JInt 3),
     (''overlay_height'', JInt 80),
     (''margin_bottom'', JInt 50),
     (''margin_horizontal'', JInt 0),
     (''bubble_spacing'', JInt 10),
     (''fade_speed'', JFloat (1 / 2)),
     (''max_keys'', JInt 10),
     (''start_minimized'', JBool True),
     (''autostart'', JBool False),
     (''position_horizontal'', JStr ''center''),
     (''position_vertical'', JStr ''bottom''),
     (''screen_selection'', JStr ''primary''),
     (''show_click_spot'', JBool True),
     (''click_spot_radius'', JInt 45),
     (''click_spot_fade_ms'', JInt 400),
     (''click_spot_color_left'', JStr ''#6490ff''),
     (''click_spot_color_right'', JStr ''#ff7864''),
     (''click_spot_color_middle'', JStr ''#8cc88c''),
     (''click_spot_opacity'', JFloat (7 / 10))]"

text \<open>\<^verbatim>\<open>d.update(other)\<close>: for a dictionary, one assignment per item, in order.\<close>

definition dict_update ::
  "pylib \<Rightarrow> (string \<times> json) list \<Rightarrow> json \<Rightarrow> (string \<times> json) list \<times> error option" where
  "dict_update L d other =
     (case other of
        JObj items \<Rightarrow> (fold (\<lambda>(k, v) d. AList.update k v d) items d, None)
      | _ \<Rightarrow> update_from_seq L d other)"

text \<open>
  \<^verbatim>\<open>load_config\<close>, given what \<^verbatim>\<open>self.settings.value("config")\<close> returns: \<open>None\<close> or the stored
  text. The handler catches \<^verbatim>\<open>json.JSONDecodeError\<close> and \<^verbatim>\<open>TypeError\<close>, from either call of
  the \<^verbatim>\<open>try\<close> block, and the function then returns \<^verbatim>\<open>config\<close> as the block left it; any
  other exception leaves the function.
\<close>

definition caught :: "error \<Rightarrow> bool" where
  "caught e = (e = JSONDecodeError \<or> e = TypeError)"

definition load_config :: "pylib \<Rightarrow> string option \<Rightarrow> error + (string \<times> json) list" where
  "load_config L stored =
     (let config = DEFAULT_CONFIG in
      case stored of
        None \<Rightarrow> Inr config
      | Some text \<Rightarrow>
          if text = [] then Inr config
          else
            (case json_loads L text of
               Inl e \<Rightarrow> if caught e then Inr config else Inl e
             | Inr stored_config \<Rightarrow>
                 (case dict_update L config stored_config of
                    (config', None) \<Rightarrow> Inr config'
                  | (config', Some e) \<Rightarrow> if caught e then Inr config' else Inl e)))"

text \<open>\<^verbatim>\<open>save_config\<close>: the value it stores under \<^verbatim>\<open>"config"\<close>.\<close>

definition save_config :: "pylib \<Rightarrow> (string \<times> json) list \<Rightarrow> string option" where
  "save_config L cfg = Some (json_dumps L (JObj cfg))"

section \<open>Properties of the display-state tracker\<close>

subsection \<open>The eviction loop\<close>

lemma evict_one_fields [simp]:
  "key_bubbles (evict_one s b rest) = rest"
  "config (evict_one s b rest) = config s"
  "next_ref (evict_one s b rest) = next_ref s"
  "store (evict_one s b rest) = store s"
  "combo_key_map (evict_one s b rest) = combo_key_map s"
  by (simp_all add: evict_one_def Let_def split: option.split)

lemma evict_drop:
  "0 \<le> max_keys (config s) \<Longrightarrow>
   \<exists>s'. evict s = Inr s' \<and> config s' = config s \<and> next_ref s' = next_ref s \<and>
        store s' = store s \<and> combo_key_map s' = combo_key_map s \<and>
        key_bubbles s' = drop (length (key_bubbles s) - nat (max_keys (config s))) (key_bubbles s)"
proof (induction s rule: evict.induct)
  case (1 s)
  show ?case
  proof (cases "int (length (key_bubbles s)) > max_keys (config s)")
    case False
    then show ?thesis by (simp add: evict.simps)
  next
    case True
    with "1.prems" obtain b rest where br: "key_bubbles s = b # rest"
      by (cases "key_bubbles s") auto
    from "1.IH"[OF True br] "1.prems"
    obtain s' where s': "evict (evict_one s b rest) = Inr s'" "config s' = config s"
      "next_ref s' = next_ref s" "store s' = store s" "combo_key_map s' = combo_key_map s"
      "key_bubbles s' = drop (length rest - nat (max_keys (config s))) rest"
      by auto
    have "evict s = evict (evict_one s b rest)"
      using True br by (subst evict.simps) simp
    moreover have "drop (length (key_bubbles s) - nat (max_keys (config s))) (key_bubbles s)
        = drop (length rest - nat (max_keys (config s))) rest"
      using True br "1.prems" by (simp add: Suc_diff_le)
    ultimately show ?thesis using s' by simp
  qed
qed


lemma add_key_new:
  assumes "map_of (active_keys s) key_name = None"
  shows "add_key s key_name =
     evict (s\<lparr>store := (store s)(next_ref s := \<lparr>key_text = key_name, opacity = 1\<rparr>),
              next_ref := Suc (next_ref s),
              key_bubbles := key_bubbles s @ [next_ref s],
              active_keys := AList.update key_name (next_ref s) (active_keys s)\<rparr>)"
  using assms by (simp add: add_key_def Let_def)

lemma add_key_step:
  assumes m: "1 \<le> max_keys (config s)"
    and l: "int (length (key_bubbles s)) \<le> max_keys (config s)"
  shows "\<exists>s'. add_key s key_name = Inr s' \<and> config s' = config s \<and>
           int (length (key_bubbles s')) \<le> max_keys (config s) \<and>
           (\<not> py_in key_name (active_keys s) \<longrightarrow>
              key_bubbles s' =
                (if int (length (key_bubbles s)) < max_keys (config s) then key_bubbles s
                 else tl (key_bubbles s)) @ [next_ref s])"
proof (cases "map_of (active_keys s) key_name")
  case (Some b)
  then show ?thesis using l by (simp add: add_key_def py_in_def)
next
  case None
  define s1 where "s1 = s\<lparr>store := (store s)(next_ref s := \<lparr>key_text = key_name, opacity = 1\<rparr>),
                next_ref := Suc (next_ref s),
                key_bubbles := key_bubbles s @ [next_ref s],
                active_keys := AList.update key_name (next_ref s) (active_keys s)\<rparr>"
  have eq: "add_key s key_name = evict s1"
    unfolding s1_def by (rule add_key_new[OF None])
  have c1: "config s1 = config s" and k1: "key_bubbles s1 = key_bubbles s @ [next_ref s]"
    by (simp_all add: s1_def)
  have "0 \<le> max_keys (config s1)" using m c1 by simp
  from evict_drop[OF this] obtain s' where ev: "evict s1 = Inr s'" and c': "config s' = config s1"
    and kb: "key_bubbles s' = drop (length (key_bubbles s1) - nat (max_keys (config s1))) (key_bubbles s1)"
    by blast
  have kb': "key_bubbles s' =
      drop (Suc (length (key_bubbles s)) - nat (max_keys (config s))) (key_bubbles s @ [next_ref s])"
    using kb c1 k1 by simp
  show ?thesis
  proof (cases "int (length (key_bubbles s)) < max_keys (config s)")
    case True
    then have "Suc (length (key_bubbles s)) - nat (max_keys (config s)) = 0" by linarith
    with kb' have "key_bubbles s' = key_bubbles s @ [next_ref s]" by simp
    moreover from this True have "int (length (key_bubbles s')) \<le> max_keys (config s)" by simp
    ultimately show ?thesis using eq ev c' c1 True by simp
  next
    case False
    with l have full: "int (length (key_bubbles s)) = max_keys (config s)" by simp
    then have d: "Suc (length (key_bubbles s)) - nat (max_keys (config s)) = Suc 0" by linarith
    from full m obtain b rest where br: "key_bubbles s = b # rest"
      by (cases "key_bubbles s") auto
    from kb' d br have k: "key_bubbles s' = tl (key_bubbles s) @ [next_ref s]" by simp
    from k br full have "int (length (key_bubbles s')) \<le> max_keys (config s)" by simp
    then show ?thesis using eq ev c' c1 False k by simp
  qed
qed

text \<open>
  C1. Take an overlay whose \<^verbatim>\<open>max_keys\<close> is at least 1 and that shows at most \<^verbatim>\<open>max_keys\<close>
  bubbles (a new overlay shows none). Every sequence of \<^verbatim>\<open>add_key\<close> calls returns, and
  after it at most \<^verbatim>\<open>max_keys\<close> bubbles are shown. A further \<^verbatim>\<open>add_key\<close> of a key
  that is not shown appends the new bubble; when the overlay is full it first drops the
  head of \<^verbatim>\<open>key_bubbles\<close>, the oldest bubble. Nothing is assumed about \<^verbatim>\<open>fade_timers\<close>:
  the head goes whether or not it is fading.
\<close>

theorem add_key_bounded_evicts_oldest:
  assumes "1 \<le> max_keys (config s0)"
    and "int (length (key_bubbles s0)) \<le> max_keys (config s0)"
  shows "\<exists>s. add_keys s0 ks = Inr s \<and> config s = config s0 \<and>
           int (length (key_bubbles s)) \<le> max_keys (config s0) \<and>
           (\<forall>key_name. \<not> py_in key_name (active_keys s) \<longrightarrow>
              (\<exists>s'. add_key s key_name = Inr s' \<and>
                    int (length (key_bubbles s')) \<le> max_keys (config s0) \<and>
                    key_bubbles s' =
                      (if int (length (key_bubbles s)) < max_keys (config s0) then key_bubbles s
                       else tl (key_bubbles s)) @ [next_ref s]))"
  using assms
proof (induction ks arbitrary: s0)
  case Nil
  have "\<exists>s'. add_key s0 key_name = Inr s' \<and>
            int (length (key_bubbles s')) \<le> max_keys (config s0) \<and>
            key_bubbles s' =
              (if int (length (key_bubbles s0)) < max_keys (config s0) then key_bubbles s0
               else tl (key_bubbles s0)) @ [next_ref s0]"
    if "\<not> py_in key_name (active_keys s0)" for key_name
    using add_key_step[OF Nil, of key_name] that by blast
  then show ?case using Nil by simp
next
  case (Cons k ks)
  from add_key_step[OF Cons.prems, of k] obtain s1 where
    s1: "add_key s0 k = Inr s1" "config s1 = config s0"
        "int (length (key_bubbles s1)) \<le> max_keys (config s0)" by blast
  have "1 \<le> max_keys (config s1)" "int (length (key_bubbles s1)) \<le> max_keys (config s1)"
    using s1 Cons.prems by simp_all
  from Cons.IH[OF this] show ?case using s1 by simp
qed

theorem add_key_bounded_evicts_oldest_witness:
  "(1::int) \<le> max_keys (config
      \<lparr>config = \<lparr>max_keys = 2, fade_speed = 1 / 2\<rparr>, key_bubbles = [0, 1],
       fade_timers = [(''A'', 50)], active_keys = [(''A'', 0), (''B'', 1)],
       combo_key_map = [],
       store = (\<lambda>_. \<lparr>key_text = [], opacity = 0\<rparr>)
         (0 := \<lparr>key_text = ''A'', opacity = 1 / 2\<rparr>, 1 := \<lparr>key_text = ''B'', opacity = 1\<rparr>),
       next_ref = 2\<rparr>) \<and>
   (\<exists>s. add_keys
      \<lparr>config = \<lparr>max_keys = 2, fade_speed = 1 / 2\<rparr>, key_bubbles = [0, 1],
       fade_timers = [(''A'', 50)], active_keys = [(''A'', 0), (''B'', 1)],
       combo_key_map = [],
       store = (\<lambda>_. \<lparr>key_text = [], opacity = 0\<rparr>)
         (0 := \<lparr>key_text = ''A'', opacity = 1 / 2\<rparr>, 1 := \<lparr>key_text = ''B'', opacity = 1\<rparr>),
       next_ref = 2\<rparr> [''B''] = Inr s \<and>
      key_bubbles s = [0, 1] \<and> fade_timers s = [(''A'', 50)] \<and>
      (\<exists>s'. add_key s ''C'' = Inr s' \<and> key_bubbles s' = [1, 2]))"
proof -
  define s0 where "s0 =
      \<lparr>config = \<lparr>max_keys = 2, fade_speed = 1 / 2\<rparr>, key_bubbles = [0, 1::nat],
       fade_timers = [(''A'', 50::nat)], active_keys = [(''A'', 0::nat), (''B'', 1)],
       combo_key_map = [],
       store = (\<lambda>_. \<lparr>key_text = [], opacity = 0\<rparr>)
         (0 := \<lparr>key_text = ''A'', opacity = 1 / 2\<rparr>, 1 := \<lparr>key_text = ''B'', opacity = 1\<rparr>),
       next_ref = 2\<rparr>"
  have h1: "1 \<le> max_keys (config s0)"
    and h2: "int (length (key_bubbles s0)) \<le> max_keys (config s0)"
    by (simp_all add: s0_def)
  from add_key_bounded_evicts_oldest[OF h1 h2, of "[''B'']"]
  obtain s where s: "add_keys s0 [''B''] = Inr s"
    and nxt: "\<forall>key_name. \<not> py_in key_name (active_keys s) \<longrightarrow>
              (\<exists>s'. add_key s key_name = Inr s' \<and>
                    int (length (key_bubbles s')) \<le> max_keys (config s0) \<and>
                    key_bubbles s' =
                      (if int (length (key_bubbles s)) < max_keys (config s0) then key_bubbles s
                       else tl (key_bubbles s)) @ [next_ref s])"
    by blast
  have run: "add_keys s0 [''B''] = Inr s0"
    by (simp add: s0_def add_key_def py_in_def)
  with s have eq: "s = s0" by simp
  have kb: "key_bubbles s = [0, 1]" "next_ref s = 2" "fade_timers s = [(''A'', 50)]"
    "active_keys s = [(''A'', 0), (''B'', 1)]"
    by (simp_all add: eq s0_def)
  have "\<not> py_in ''C'' (active_keys s)" using kb by (simp add: py_in_def)
  with nxt obtain s' where "add_key s ''C'' = Inr s'"
    "key_bubbles s' = (if int (length (key_bubbles s)) < max_keys (config s0) then key_bubbles s
                       else tl (key_bubbles s)) @ [next_ref s]" by blast
  then have "add_key s ''C'' = Inr s' \<and> key_bubbles s' = [1, 2]"
    using kb by (simp add: s0_def)
  then show ?thesis using h1 s kb unfolding s0_def by blast
qed

text \<open>
  C9. \<^verbatim>\<open>add_key\<close> of a key that is in \<^verbatim>\<open>active_keys\<close> returns, sets the opacity of that
  key's bubble to 1 and removes the key's fade timer. \<^verbatim>\<open>key_bubbles\<close>, \<^verbatim>\<open>active_keys\<close>,
  \<^verbatim>\<open>combo_key_map\<close>, the configuration, every other bubble and every other key's fade
  timer are unchanged, and no bubble is created.
\<close>

theorem add_key_existing_resets_only_fade:
  assumes "map_of (active_keys s) key_name = Some bubble"
  shows "\<exists>s'. add_key s key_name = Inr s' \<and>
           opacity (store s' bubble) = 1 \<and>
           \<not> py_in key_name (fade_timers s') \<and>
           key_bubbles s' = key_bubbles s \<and>
           active_keys s' = active_keys s \<and>
           combo_key_map s' = combo_key_map s \<and>
           config s' = config s \<and>
           next_ref s' = next_ref s \<and>
           key_text (store s' bubble) = key_text (store s bubble) \<and>
           (\<forall>b. b \<noteq> bubble \<longrightarrow> store s' b = store s b) \<and>
           fade_timers s' = AList.delete key_name (fade_timers s) \<and>
           (\<forall>k. k \<noteq> key_name \<longrightarrow> map_of (fade_timers s') k = map_of (fade_timers s) k)"
proof -
  have d: "(if py_in key_name (fade_timers s) then AList.delete key_name (fade_timers s)
            else fade_timers s) = AList.delete key_name (fade_timers s)"
    by (simp add: py_in_def map_of_eq_None_iff)
  have "\<not> py_in key_name (AList.delete key_name (fade_timers s))"
    by (simp add: py_in_def delete_conv')
  then show ?thesis using assms d
    by (simp add: add_key_def delete_conv')
qed

theorem add_key_existing_resets_only_fade_witness:
  "map_of (active_keys
      \<lparr>config = \<lparr>max_keys = 2, fade_speed = 1/2\<rparr>, key_bubbles = [0, 1],
       fade_timers = [(''A'', 50), (''B'', 50)], active_keys = [(''A'', 0), (''B'', 1)],
       combo_key_map = [],
       store = (\<lambda>_. \<lparr>key_text = [], opacity = 0\<rparr>)
         (0 := \<lparr>key_text = ''A'', opacity = 1/4\<rparr>, 1 := \<lparr>key_text = ''B'', opacity = 1/4\<rparr>),
       next_ref = 2\<rparr>) ''A'' = Some 0 \<and>
   (\<exists>s'. add_key
      \<lparr>config = \<lparr>max_keys = 2, fade_speed = 1/2\<rparr>, key_bubbles = [0, 1],
       fade_timers = [(''A'', 50), (''B'', 50)], active_keys = [(''A'', 0), (''B'', 1)],
       combo_key_map = [],
       store = (\<lambda>_. \<lparr>key_text = [], opacity = 0\<rparr>)
         (0 := \<lparr>key_text = ''A'', opacity = 1/4\<rparr>, 1 := \<lparr>key_text = ''B'', opacity = 1/4\<rparr>),
       next_ref = 2\<rparr> ''A'' = Inr s' \<and>
      opacity (store s' 0) = 1 \<and> opacity (store s' 1) = 1/4 \<and>
      key_bubbles s' = [0, 1] \<and> fade_timers s' = [(''B'', 50)] \<and>
      active_keys s' = [(''A'', 0), (''B'', 1)])"
proof -
  let ?s = "\<lparr>config = \<lparr>max_keys = 2, fade_speed = 1/2\<rparr>, key_bubbles = [0, 1],
       fade_timers = [(''A'', 50), (''B'', 50)], active_keys = [(''A'', 0), (''B'', 1)],
       combo_key_map = [],
       store = (\<lambda>_. \<lparr>key_text = [], opacity = 0\<rparr>)
         (0 := \<lparr>key_text = ''A'', opacity = 1/4\<rparr>, 1 := \<lparr>key_text = ''B'', opacity = 1/4\<rparr>),
       next_ref = 2\<rparr>"
  have h: "map_of (active_keys ?s) ''A'' = Some 0" by simp
  from add_key_existing_resets_only_fade[OF h] obtain s' where
    s': "add_key ?s ''A'' = Inr s'" "opacity (store s' 0) = 1"
      "key_bubbles s' = key_bubbles ?s" "active_keys s' = active_keys ?s"
      "\<forall>b. b \<noteq> 0 \<longrightarrow> store s' b = store ?s b"
      "fade_timers s' = AList.delete ''A'' (fade_timers ?s)"
    by blast
  from s'(5) have "store s' 1 = store ?s 1" by simp
  then have "opacity (store s' 1) = 1/4" by simp
  with s' h show ?thesis by (intro conjI exI[of _ s']) simp_all
qed

subsection \<open>Release of a combination\<close>


lemma start_fade_fields [simp]:
  "active_keys (start_fade s k) = active_keys s"
  "key_bubbles (start_fade s k) = key_bubbles s"
  "combo_key_map (start_fade s k) = combo_key_map s"
  "store (start_fade s k) = store s"
  "config (start_fade s k) = config s"
  "next_ref (start_fade s k) = next_ref s"
  by (simp_all add: start_fade_def)




subsection \<open>Fading\<close>







section \<open>Properties of input normalization\<close>

lemma vk_of_attr:
  "vk_attr key = Some (Some vk) \<Longrightarrow>
   get_key_from_vk key =
     (if 0x41 \<le> vk \<and> vk \<le> 0x5A then returning (py_chr vk)
      else if 0x30 \<le> vk \<and> vk \<le> 0x39 then returning (py_chr vk)
      else if 0x60 \<le> vk \<and> vk \<le> 0x69 then Inr (Some (py_str (vk - 0x60)))
      else if py_in vk numpad_map then Inr (map_of numpad_map vk)
      else if py_in vk vk_map then Inr (map_of vk_map vk)
      else if 0x70 \<le> vk \<and> vk \<le> 0x7B then Inr (Some (''F'' @ py_str (vk - 0x6F)))
      else if 0x20 \<le> vk \<and> vk \<le> 0x7E then returning (py_chr vk)
      else Inr None)"
  by (simp add: get_key_from_vk_def)

lemma returning_chr_ascii:
  "0 \<le> i \<Longrightarrow> i < 0x80 \<Longrightarrow> returning (py_chr i) = Inr (Some [char_of (nat i)])"
  by (simp add: returning_def py_chr_def utf8_def)

lemma py_in_numpad: "py_in vk numpad_map \<longleftrightarrow> vk \<in> {0x6A, 0x6B, 0x6D, 0x6E, 0x6F}"
  by (simp add: py_in_def numpad_map_def)

lemma py_in_vk_map:
  "py_in vk vk_map \<longleftrightarrow>
     vk \<in> {0xBB, 0xBC, 0xBD, 0xBE, 0xBF, 0xBA, 0xDB, 0xDC, 0xDD, 0xDE, 0xC0}"
  by (simp add: py_in_def vk_map_def)

lemma py_in_Some: "py_in k d \<Longrightarrow> \<exists>v. map_of d k = Some v"
  by (simp add: py_in_def)

lemma py_str_digit: "0 \<le> i \<Longrightarrow> i < 10 \<Longrightarrow> py_str i = [char_of (48 + nat i)]"
  by (simp add: py_str_def digits.simps)

text \<open>
  C6. For a key whose virtual-key code is \<open>vk\<close>, \<^verbatim>\<open>get_key_from_vk\<close> returns the character
  with code \<open>vk\<close> for 65-90 and for 48-57, the decimal digit \<open>vk - 96\<close> for 96-105, and
  \<^verbatim>\<open>'F'\<close> followed by the decimal \<open>vk - 111\<close> for 112-123; the four tables list these
  labels: the letters A-Z, the digits 0-9 twice, and F1-F12. It returns \<^verbatim>\<open>None\<close> exactly
  for the codes outside 32-126 that are not keys of the punctuation table.
\<close>

theorem get_key_from_vk_ranges:
  assumes vk: "vk_attr key = Some (Some vk)"
  shows "(0x41 \<le> vk \<and> vk \<le> 0x5A \<longrightarrow> get_key_from_vk key = Inr (Some [char_of (nat vk)])) \<and>
         (0x30 \<le> vk \<and> vk \<le> 0x39 \<longrightarrow> get_key_from_vk key = Inr (Some [char_of (nat vk)])) \<and>
         (0x60 \<le> vk \<and> vk \<le> 0x69 \<longrightarrow>
            get_key_from_vk key = Inr (Some (py_str (vk - 0x60))) \<and>
            py_str (vk - 0x60) = [char_of (48 + nat (vk - 0x60))]) \<and>
         (0x70 \<le> vk \<and> vk \<le> 0x7B \<longrightarrow>
            get_key_from_vk key = Inr (Some (''F'' @ py_str (vk - 0x6F)))) \<and>
         (get_key_from_vk key = Inr None \<longleftrightarrow>
            (vk < 0x20 \<or> 0x7E < vk) \<and> \<not> py_in vk vk_map) \<and>
         map (\<lambda>i. char_of (nat i)) [0x41..0x5A] = ''ABCDEFGHIJKLMNOPQRSTUVWXYZ'' \<and>
         map (\<lambda>i. char_of (nat i)) [0x30..0x39] = ''0123456789'' \<and>
         concat (map (\<lambda>i. py_str (i - 0x60)) [0x60..0x69]) = ''0123456789'' \<and>
         map (\<lambda>i. ''F'' @ py_str (i - 0x6F)) [0x70..0x7B] =
           [''F1'', ''F2'', ''F3'', ''F4'', ''F5'', ''F6'', ''F7'', ''F8'', ''F9'', ''F10'',
            ''F11'', ''F12'']"
proof -
  note eq = vk_of_attr[OF vk]
  have letters: "0x41 \<le> vk \<and> vk \<le> 0x5A \<longrightarrow> get_key_from_vk key = Inr (Some [char_of (nat vk)])"
    by (simp add: eq returning_chr_ascii)
  have digs: "0x30 \<le> vk \<and> vk \<le> 0x39 \<longrightarrow> get_key_from_vk key = Inr (Some [char_of (nat vk)])"
    by (simp add: eq returning_chr_ascii)
  have numpad: "0x60 \<le> vk \<and> vk \<le> 0x69 \<longrightarrow>
            get_key_from_vk key = Inr (Some (py_str (vk - 0x60))) \<and>
            py_str (vk - 0x60) = [char_of (48 + nat (vk - 0x60))]"
    by (simp add: eq py_str_digit)
  have fkeys: "0x70 \<le> vk \<and> vk \<le> 0x7B \<longrightarrow>
            get_key_from_vk key = Inr (Some (''F'' @ py_str (vk - 0x6F)))"
    by (auto simp: eq py_in_numpad py_in_vk_map)
  have none: "get_key_from_vk key = Inr None \<longleftrightarrow>
            (vk < 0x20 \<or> 0x7E < vk) \<and> \<not> py_in vk vk_map"
  proof (cases "0x20 \<le> vk \<and> vk \<le> 0x7E")
    case True
    then have nv: "\<not> py_in vk vk_map" by (auto simp: py_in_vk_map)
    have "get_key_from_vk key \<noteq> Inr None"
    proof (cases "py_in vk numpad_map")
      case True
      from py_in_Some[OF this] obtain v where "map_of numpad_map vk = Some v" by blast
      moreover from True have "vk \<in> {0x6A, 0x6B, 0x6D, 0x6E, 0x6F}"
        by (simp add: py_in_numpad)
      ultimately show ?thesis using True by (auto simp: eq)
    next
      case False
      with True nv show ?thesis by (simp add: eq returning_chr_ascii)
    qed
    with True show ?thesis by auto
  next
    case False
    then have nn: "\<not> py_in vk numpad_map" by (auto simp: py_in_numpad)
    show ?thesis
    proof (cases "py_in vk vk_map")
      case True
      from py_in_Some[OF this] obtain v where "map_of vk_map vk = Some v" by blast
      with True False nn show ?thesis by (auto simp: eq)
    next
      case nv: False
      with False nn show ?thesis by (auto simp: eq)
    qed
  qed
  have t1: "map (\<lambda>i. char_of (nat i)) [0x41..0x5A] = ''ABCDEFGHIJKLMNOPQRSTUVWXYZ''"
    by code_simp
  have t2: "map (\<lambda>i. char_of (nat i)) [0x30..0x39] = ''0123456789''"
    by code_simp
  have t3: "concat (map (\<lambda>i. py_str (i - 0x60)) [0x60..0x69]) = ''0123456789''"
    by code_simp
  have t4: "map (\<lambda>i. ''F'' @ py_str (i - 0x6F)) [0x70..0x7B] =
           [''F1'', ''F2'', ''F3'', ''F4'', ''F5'', ''F6'', ''F7'', ''F8'', ''F9'', ''F10'',
            ''F11'', ''F12'']"
    by code_simp
  from letters digs numpad fkeys none t1 t2 t3 t4 show ?thesis by blast
qed


theorem get_key_from_vk_ranges_witness:
  "vk_attr \<lparr>key_str = ''<65>'', char_attr = Some None, vk_attr = Some (Some 65), has_scan = False\<rparr>
     = Some (Some 65) \<and>
   get_key_from_vk
     \<lparr>key_str = ''<65>'', char_attr = Some None, vk_attr = Some (Some 65), has_scan = False\<rparr>
     = Inr (Some ''A'') \<and>
   get_key_from_vk
     \<lparr>key_str = ''<200>'', char_attr = Some None, vk_attr = Some (Some 200), has_scan = False\<rparr>
     = Inr None"
proof -
  let ?k = "\<lparr>key_str = ''<65>'', char_attr = Some None, vk_attr = Some (Some 65), has_scan = False\<rparr>"
  let ?n = "\<lparr>key_str = ''<200>'', char_attr = Some None, vk_attr = Some (Some 200), has_scan = False\<rparr>"
  have h: "vk_attr ?k = Some (Some 65)" by simp
  have c: "[char_of (nat 65)] = ''A''" by code_simp
  from get_key_from_vk_ranges[OF h] have "get_key_from_vk ?k = Inr (Some [char_of (nat 65)])"
    by simp
  with c have a: "get_key_from_vk ?k = Inr (Some ''A'')" by simp
  have h': "vk_attr ?n = Some (Some 200)" by simp
  from get_key_from_vk_ranges[OF h'] have "get_key_from_vk ?n = Inr None"
    by (simp add: py_in_vk_map)
  with a h show ?thesis by simp
qed

lemma get_key_from_vk_returns: "\<exists>r. get_key_from_vk key = Inr r"
proof (cases "vk_attr key")
  case None
  then show ?thesis by (simp add: get_key_from_vk_def)
next
  case (Some a)
  show ?thesis
  proof (cases a)
    case None
    with Some show ?thesis by (simp add: get_key_from_vk_def)
  next
    case (Some vk)
    with \<open>vk_attr key = Some a\<close> have "vk_attr key = Some (Some vk)" by simp
    from vk_of_attr[OF this] show ?thesis
      by (simp add: returning_chr_ascii)
  qed
qed

text \<open>
  C5. For every key and every behaviour of the string methods, normalization
  (\<^verbatim>\<open>get_key_name\<close>, then \<^verbatim>\<open>get_key_from_vk\<close> when it gives \<^verbatim>\<open>None\<close>) returns a label or
  \<^verbatim>\<open>None\<close> and raises nothing: every \<^verbatim>\<open>chr\<close> is reached with a code in range. When it
  returns \<^verbatim>\<open>None\<close>, the press and the release handler emit no signal and leave the
  listener unchanged. Being a function of the key, the result is deterministic.
\<close>

theorem normalize_key_total:
  "(\<exists>r. normalize_key U key = Inr r) \<and>
   (normalize_key U key = Inr None \<longrightarrow>
      on_press U l key = Inr ([], l) \<and> on_release U l key = Inr ([], l))"
proof -
  from get_key_from_vk_returns obtain r where "get_key_from_vk key = Inr r" by blast
  then have "\<exists>r. normalize_key U key = Inr r"
    by (simp add: normalize_key_def split: option.split)
  moreover have "normalize_key U key = Inr None \<longrightarrow>
      on_press U l key = Inr ([], l) \<and> on_release U l key = Inr ([], l)"
    by (simp add: on_press_def on_release_def)
  ultimately show ?thesis by blast
qed

theorem normalize_key_total_witness:
  "normalize_key ascii_ops
     \<lparr>key_str = ''<255>'', char_attr = Some None, vk_attr = Some (Some 255), has_scan = False\<rparr>
     = Inr None \<and>
   on_press ascii_ops \<lparr>active_modifiers = {''Ctrl''}\<rparr>
     \<lparr>key_str = ''<255>'', char_attr = Some None, vk_attr = Some (Some 255), has_scan = False\<rparr>
     = Inr ([], \<lparr>active_modifiers = {''Ctrl''}\<rparr>) \<and>
   on_release ascii_ops \<lparr>active_modifiers = {''Ctrl''}\<rparr>
     \<lparr>key_str = ''<255>'', char_attr = Some None, vk_attr = Some (Some 255), has_scan = False\<rparr>
     = Inr ([], \<lparr>active_modifiers = {''Ctrl''}\<rparr>) \<and>
   normalize_key ascii_ops
     \<lparr>key_str = ''a'', char_attr = Some (Some ''a''), vk_attr = Some (Some 65), has_scan = False\<rparr>
     = Inr (Some ''A'') \<and>
   normalize_key ascii_ops
     \<lparr>key_str = ''Key.media_play_pause'', char_attr = None, vk_attr = None, has_scan = False\<rparr>
     = Inr (Some ''Media Play Pause'')"
proof -
  let ?k = "\<lparr>key_str = ''<255>'', char_attr = Some None, vk_attr = Some (Some 255), has_scan = False\<rparr>"
  have n: "normalize_key ascii_ops ?k = Inr None"
    by (simp add: normalize_key_def get_key_name_def get_key_from_vk_def py_in_def
        KEY_DISPLAY_NAMES_def startswith_def numpad_map_def vk_map_def)
  from normalize_key_total[of ascii_ops ?k "\<lparr>active_modifiers = {''Ctrl''}\<rparr>"] n
  have "on_press ascii_ops \<lparr>active_modifiers = {''Ctrl''}\<rparr> ?k = Inr ([], \<lparr>active_modifiers = {''Ctrl''}\<rparr>)"
    and "on_release ascii_ops \<lparr>active_modifiers = {''Ctrl''}\<rparr> ?k = Inr ([], \<lparr>active_modifiers = {''Ctrl''}\<rparr>)"
    by blast+
  moreover have "normalize_key ascii_ops
     \<lparr>key_str = ''a'', char_attr = Some (Some ''a''), vk_attr = Some (Some 65), has_scan = False\<rparr>
     = Inr (Some ''A'')"
    by code_simp
  moreover have "normalize_key ascii_ops
     \<lparr>key_str = ''Key.media_play_pause'', char_attr = None, vk_attr = None, has_scan = False\<rparr>
     = Inr (Some ''Media Play Pause'')"
    by code_simp
  ultimately show ?thesis using n by simp
qed

subsection \<open>Combination labels\<close>

text \<open>
  C4, as stated, fails: \<^verbatim>\<open>AltGr\<close> is a modifier identifier (it is in \<^verbatim>\<open>MODIFIER_KEYS\<close> and is
  held in \<^verbatim>\<open>active_modifiers\<close>), but the loop that builds the label only looks for
  \<^verbatim>\<open>Ctrl\<close>, \<^verbatim>\<open>Alt\<close>, \<^verbatim>\<open>Shift\<close> and \<^verbatim>\<open>Win\<close>. With only \<^verbatim>\<open>AltGr\<close> held, pressing \<^verbatim>\<open>q\<close> emits the
  combination label \<^verbatim>\<open>Q\<close>, which has no part \<^verbatim>\<open>AltGr\<close>.
\<close>

theorem on_press_combo_omits_altgr_counterexample:
  "''AltGr'' \<in> MODIFIER_KEYS \<and>
   active_modifiers \<lparr>active_modifiers = {''AltGr''}\<rparr> \<noteq> {} \<and>
   normalize_key ascii_ops
     \<lparr>key_str = ''q'', char_attr = Some (Some ''q''), vk_attr = Some (Some 81), has_scan = False\<rparr>
     = Inr (Some ''Q'') \<and>
   ''Q'' \<notin> MODIFIER_KEYS \<and>
   on_press ascii_ops \<lparr>active_modifiers = {''AltGr''}\<rparr>
     \<lparr>key_str = ''q'', char_attr = Some (Some ''q''), vk_attr = Some (Some 81), has_scan = False\<rparr>
     = Inr ([combo_pressed ''Q''], \<lparr>active_modifiers = {''AltGr''}\<rparr>) \<and>
   ''AltGr'' \<notin> set (py_split CHR ''+'' ''Q'')"
  by code_simp

text \<open>
  C4, amended. While at least one modifier identifier is held, pressing a key whose label
  is not a modifier emits exactly one signal, \<^verbatim>\<open>combo_pressed\<close>, and leaves the listener
  unchanged. Its label is the held identifiers among \<^verbatim>\<open>Ctrl\<close>, \<^verbatim>\<open>Alt\<close>, \<^verbatim>\<open>Shift\<close>, \<^verbatim>\<open>Win\<close>, in
  that order, followed by the key's label, joined by \<^verbatim>\<open>+\<close>. Each of these four that is
  held is a part of the label; \<^verbatim>\<open>AltGr\<close> never is.
\<close>

theorem on_press_combo_label:
  assumes n: "normalize_key U key = Inr (Some key_name)"
    and k: "key_name \<notin> MODIFIER_KEYS"
    and held: "active_modifiers l \<noteq> {}"
  shows "on_press U l key =
           Inr ([combo_pressed
                   (py_join ''+''
                      (filter (\<lambda>m. m \<in> active_modifiers l) [''Ctrl'', ''Alt'', ''Shift'', ''Win'']
                       @ [key_name]))], l) \<and>
         (\<forall>m \<in> active_modifiers l. m \<in> {''Ctrl'', ''Alt'', ''Shift'', ''Win''} \<longrightarrow>
            m \<in> set (filter (\<lambda>m. m \<in> active_modifiers l) [''Ctrl'', ''Alt'', ''Shift'', ''Win'']
                     @ [key_name])) \<and>
         ''AltGr'' \<notin> set (filter (\<lambda>m. m \<in> active_modifiers l) [''Ctrl'', ''Alt'', ''Shift'', ''Win'']
                          @ [key_name])"
proof -
  have f: "fold (\<lambda>m parts. if m \<in> active_modifiers l then parts @ [m] else parts)
             [''Ctrl'', ''Alt'', ''Shift'', ''Win''] []
         = filter (\<lambda>m. m \<in> active_modifiers l) [''Ctrl'', ''Alt'', ''Shift'', ''Win'']"
    by simp
  have "on_press U l key =
           Inr ([combo_pressed
                   (py_join ''+''
                      (filter (\<lambda>m. m \<in> active_modifiers l) [''Ctrl'', ''Alt'', ''Shift'', ''Win'']
                       @ [key_name]))], l)"
    using n k held unfolding on_press_def Let_def f by simp
  moreover have "key_name \<noteq> ''AltGr''" using k by (auto simp: MODIFIER_KEYS_def)
  ultimately show ?thesis by auto
qed

theorem on_press_combo_label_witness:
  "normalize_key ascii_ops
     \<lparr>key_str = ''s'', char_attr = Some (Some ''s''), vk_attr = Some (Some 83), has_scan = False\<rparr>
     = Inr (Some ''S'') \<and>
   ''S'' \<notin> MODIFIER_KEYS \<and>
   active_modifiers \<lparr>active_modifiers = {''Shift'', ''AltGr'', ''Ctrl''}\<rparr> \<noteq> {} \<and>
   on_press ascii_ops \<lparr>active_modifiers = {''Shift'', ''AltGr'', ''Ctrl''}\<rparr>
     \<lparr>key_str = ''s'', char_attr = Some (Some ''s''), vk_attr = Some (Some 83), has_scan = False\<rparr>
     = Inr ([combo_pressed ''Ctrl+Shift+S''], \<lparr>active_modifiers = {''Shift'', ''AltGr'', ''Ctrl''}\<rparr>)"
proof -
  let ?k = "\<lparr>key_str = ''s'', char_attr = Some (Some ''s''), vk_attr = Some (Some 83), has_scan = False\<rparr>"
  let ?l = "\<lparr>active_modifiers = {''Shift'', ''AltGr'', ''Ctrl''}\<rparr>"
  have n: "normalize_key ascii_ops ?k = Inr (Some ''S'')" by code_simp
  have k: "''S'' \<notin> MODIFIER_KEYS" by (simp add: MODIFIER_KEYS_def)
  have h: "active_modifiers ?l \<noteq> {}" by simp
  from on_press_combo_label[OF n k h]
  have "on_press ascii_ops ?l ?k =
           Inr ([combo_pressed
                   (py_join ''+''
                      (filter (\<lambda>m. m \<in> active_modifiers ?l) [''Ctrl'', ''Alt'', ''Shift'', ''Win'']
                       @ [''S'']))], ?l)" by blast
  then have "on_press ascii_ops ?l ?k = Inr ([combo_pressed ''Ctrl+Shift+S''], ?l)" by simp
  with n k h show ?thesis by blast
qed

section \<open>Properties of settings persistence\<close>

lemma map_of_fold_update:
  "distinct (map fst items) \<Longrightarrow>
   map_of (fold (\<lambda>(k, v) d. AList.update k v d) items d) k =
     (case map_of items k of Some v \<Rightarrow> Some v | None \<Rightarrow> map_of d k)"
proof (induction items arbitrary: d)
  case Nil
  then show ?case by simp
next
  case (Cons kv items)
  obtain k' v' where kv: "kv = (k', v')" by (cases kv)
  from Cons.prems kv have d: "distinct (map fst items)" and nin: "k' \<notin> fst ` set items"
    by auto
  from nin have none: "map_of items k' = None" by (simp add: map_of_eq_None_iff)
  show ?case
    using Cons.IH[OF d, of "AList.update k' v' d"] none
    by (auto simp: kv update_conv' split: option.split)
qed

lemma load_config_object:
  assumes "text \<noteq> []" and "json_loads L text = Inr (JObj items)"
  shows "load_config L (Some text) =
           Inr (fold (\<lambda>(k, v) d. AList.update k v d) items DEFAULT_CONFIG)"
  using assms by (simp add: load_config_def dict_update_def)

lemma load_config_uncaught:
  assumes "text \<noteq> []" and "json_loads L text = Inr other"
    and "dict_update L DEFAULT_CONFIG other = (c, Some e)" and "\<not> caught e"
  shows "load_config L (Some text) = Inl e"
  using assms by (simp add: load_config_def)

text \<open>
  C7, as stated, fails: \<^verbatim>\<open>config.update(stored_config)\<close> copies every key of the stored
  object. The stored text \<^verbatim>\<open>{"foo": 1}\<close> decodes to an object whose key \<^verbatim>\<open>foo\<close> is no option
  of \<^verbatim>\<open>DEFAULT_CONFIG\<close>, and the configuration that \<^verbatim>\<open>load_config\<close> returns maps \<^verbatim>\<open>foo\<close> to 1.
\<close>

theorem load_config_unknown_key_counterexample:
  "map_of DEFAULT_CONFIG ''foo'' = None \<and>
   (\<exists>c. load_config
        \<lparr>json_loads = (\<lambda>text. Inr (JObj [(''foo'', JInt 1)])),
         json_dumps = (\<lambda>j. []),
         update_from_seq = (\<lambda>d other. (d, Some TypeError))\<rparr>
        (Some (''{'' @ [CHR 0x22] @ ''foo'' @ [CHR 0x22] @ '': 1}'')) = Inr c \<and>
      map_of c ''foo'' = Some (JInt 1) \<and>
      map_of c ''max_keys'' = Some (JInt 10))"
  by (simp add: load_config_def dict_update_def DEFAULT_CONFIG_def)

text \<open>
  C7, amended. \<^verbatim>\<open>load_config\<close> returns the default configuration when nothing or the empty
  text is stored, and when \<^verbatim>\<open>json.loads\<close> raises \<^verbatim>\<open>JSONDecodeError\<close> or \<^verbatim>\<open>TypeError\<close>. When the
  stored text decodes to a JSON object, it returns a configuration in which every key of
  the object has the stored value and every other key has its default: a missing option
  takes its default, and a key that is no known option is kept with its stored value.
  Stored texts that decode to a JSON value other than an object are not covered.
\<close>

theorem load_config_defaults_and_overrides:
  "load_config L None = Inr DEFAULT_CONFIG \<and>
   load_config L (Some []) = Inr DEFAULT_CONFIG \<and>
   (text \<noteq> [] \<and> (json_loads L text = Inl JSONDecodeError \<or> json_loads L text = Inl TypeError)
      \<longrightarrow> load_config L (Some text) = Inr DEFAULT_CONFIG) \<and>
   (text \<noteq> [] \<and> json_loads L text = Inr (JObj items) \<and> distinct (map fst items) \<longrightarrow>
      (\<exists>c. load_config L (Some text) = Inr c \<and>
           (\<forall>k. map_of c k =
                  (case map_of items k of Some v \<Rightarrow> Some v
                   | None \<Rightarrow> map_of DEFAULT_CONFIG k))))"
proof -
  have a: "load_config L None = Inr DEFAULT_CONFIG" "load_config L (Some []) = Inr DEFAULT_CONFIG"
    by (simp_all add: load_config_def)
  have b: "text \<noteq> [] \<and> (json_loads L text = Inl JSONDecodeError \<or> json_loads L text = Inl TypeError)
      \<longrightarrow> load_config L (Some text) = Inr DEFAULT_CONFIG"
    by (auto simp: load_config_def caught_def)
  have c: "text \<noteq> [] \<and> json_loads L text = Inr (JObj items) \<and> distinct (map fst items) \<longrightarrow>
      (\<exists>c. load_config L (Some text) = Inr c \<and>
           (\<forall>k. map_of c k =
                  (case map_of items k of Some v \<Rightarrow> Some v
                   | None \<Rightarrow> map_of DEFAULT_CONFIG k)))"
    by (auto simp: load_config_object map_of_fold_update)
  from a b c show ?thesis by blast
qed

theorem load_config_defaults_and_overrides_witness:
  "(\<exists>c. load_config
        \<lparr>json_loads = (\<lambda>text. Inr (JObj [(''max_keys'', JInt 5), (''theme'', JStr ''dark'')])),
         json_dumps = (\<lambda>j. []),
         update_from_seq = (\<lambda>d other. (d, Some TypeError))\<rparr>
        (Some (''{'' @ [CHR 0x22] @ ''max_keys'' @ [CHR 0x22] @ '': 5, '' @ [CHR 0x22] @ ''theme''
               @ [CHR 0x22] @ '': '' @ [CHR 0x22] @ ''dark'' @ [CHR 0x22] @ ''}'')) = Inr c \<and>
      map_of c ''max_keys'' = Some (JInt 5) \<and>
      map_of c ''font_size'' = Some (JInt 20) \<and>
      map_of c ''theme'' = Some (JStr ''dark'')) \<and>
   load_config
     \<lparr>json_loads = (\<lambda>text. Inl JSONDecodeError), json_dumps = (\<lambda>j. []),
      update_from_seq = (\<lambda>d other. (d, Some TypeError))\<rparr> (Some ''{max_keys'')
     = Inr DEFAULT_CONFIG"
proof -
  let ?L = "\<lparr>json_loads = (\<lambda>text. Inr (JObj [(''max_keys'', JInt 5), (''theme'', JStr ''dark'')])),
         json_dumps = (\<lambda>j. []),
         update_from_seq = (\<lambda>d other. (d, Some TypeError))\<rparr>"
  let ?t = "''{'' @ [CHR 0x22] @ ''max_keys'' @ [CHR 0x22] @ '': 5, '' @ [CHR 0x22] @ ''theme''
               @ [CHR 0x22] @ '': '' @ [CHR 0x22] @ ''dark'' @ [CHR 0x22] @ ''}''"
  let ?items = "[(''max_keys'', JInt 5), (''theme'', JStr ''dark'')]"
  let ?B = "\<lparr>json_loads = (\<lambda>text. Inl JSONDecodeError), json_dumps = (\<lambda>j. []),
      update_from_seq = (\<lambda>d other. (d, Some TypeError))\<rparr>"
  have h: "?t \<noteq> [] \<and> json_loads ?L ?t = Inr (JObj ?items) \<and> distinct (map fst ?items)"
    by simp
  with load_config_defaults_and_overrides[of ?L ?t ?items]
  obtain c where c: "load_config ?L (Some ?t) = Inr c"
    "\<forall>k. map_of c k = (case map_of ?items k of Some v \<Rightarrow> Some v
                   | None \<Rightarrow> map_of DEFAULT_CONFIG k)" by blast
  from c(2) have "map_of c ''max_keys'' = Some (JInt 5)" "map_of c ''theme'' = Some (JStr ''dark'')"
    "map_of c ''font_size'' = Some (JInt 20)"
    by (simp_all add: DEFAULT_CONFIG_def)
  with c(1) have first: "\<exists>c. load_config ?L (Some ?t) = Inr c \<and>
      map_of c ''max_keys'' = Some (JInt 5) \<and>
      map_of c ''font_size'' = Some (JInt 20) \<and>
      map_of c ''theme'' = Some (JStr ''dark'')" by blast
  have "''{max_keys'' \<noteq> [] \<and> (json_loads ?B ''{max_keys'' = Inl JSONDecodeError \<or>
          json_loads ?B ''{max_keys'' = Inl TypeError)" by simp
  with load_config_defaults_and_overrides[of ?B "''{max_keys''" "[]"]
  have "load_config ?B (Some ''{max_keys'') = Inr DEFAULT_CONFIG" by blast
  with first show ?thesis by blast
qed

subsection \<open>Round trip\<close>

lemma map_of_filter_keys:
  "map_of (filter (\<lambda>(k, v). k \<notin> R) al) k = (if k \<in> R then None else map_of al k)"
  by (induction al) auto

lemma distinct_filter_keys:
  "distinct (map fst al) \<Longrightarrow> distinct (map fst (filter P al))"
  by (induction al) auto

text \<open>
  C8. Let \<open>cfg\<close> be a configuration whose keys are exactly the known options, and let the
  library decode what it encoded (\<^verbatim>\<open>json.loads(json.dumps(cfg)) == cfg\<close>, the encoding not
  empty). Then \<^verbatim>\<open>load_config\<close> after \<^verbatim>\<open>save_config\<close> returns a configuration equal to \<open>cfg\<close>
  as a mapping. If instead the stored text decodes to \<open>cfg\<close> without the keys of a set
  \<open>R\<close>, the result has the default for every key in \<open>R\<close> and the value of \<open>cfg\<close> for every
  other key.
\<close>

theorem config_roundtrip:
  assumes d: "distinct (map fst cfg)"
    and keys: "set (map fst cfg) = set (map fst DEFAULT_CONFIG)"
    and ne: "json_dumps L (JObj cfg) \<noteq> []"
    and rt: "json_loads L (json_dumps L (JObj cfg)) = Inr (JObj cfg)"
    and ne': "text \<noteq> []"
    and sub: "json_loads L text = Inr (JObj (filter (\<lambda>(k, v). k \<notin> R) cfg))"
  shows "(\<exists>c. load_config L (save_config L cfg) = Inr c \<and> map_of c = map_of cfg) \<and>
         (\<exists>c. load_config L (Some text) = Inr c \<and>
              (\<forall>k. map_of c k = (if k \<in> R then map_of DEFAULT_CONFIG k else map_of cfg k)))"
proof -
  have none: "map_of DEFAULT_CONFIG k = None" if "map_of cfg k = None" for k
  proof -
    from that have "k \<notin> fst ` set cfg" by (simp add: map_of_eq_None_iff)
    with keys have "k \<notin> fst ` set DEFAULT_CONFIG" by simp
    then show ?thesis by (simp add: map_of_eq_None_iff)
  qed
  let ?c = "fold (\<lambda>(k, v) d. AList.update k v d) cfg DEFAULT_CONFIG"
  have l1: "load_config L (save_config L cfg) = Inr ?c"
    unfolding save_config_def by (rule load_config_object[OF ne rt])
  have "map_of ?c k = map_of cfg k" for k
    using none[of k] by (simp add: map_of_fold_update[OF d] split: option.split)
  then have m1: "map_of ?c = map_of cfg" by (rule ext)
  let ?items = "filter (\<lambda>(k, v). k \<notin> R) cfg"
  let ?c' = "fold (\<lambda>(k, v) d. AList.update k v d) ?items DEFAULT_CONFIG"
  have l2: "load_config L (Some text) = Inr ?c'"
    by (rule load_config_object[OF ne' sub])
  have d': "distinct (map fst ?items)" by (rule distinct_filter_keys[OF d])
  have m2: "map_of ?c' k = (if k \<in> R then map_of DEFAULT_CONFIG k else map_of cfg k)" for k
    using none[of k]
    by (simp add: map_of_fold_update[OF d'] map_of_filter_keys split: option.split)
  from l1 m1 l2 m2 show ?thesis by blast
qed

theorem config_roundtrip_witness:
  "(\<exists>c. load_config
        \<lparr>json_loads = (\<lambda>text. if text = ''full'' then Inr (JObj (AList.update ''max_keys'' (JInt 5) DEFAULT_CONFIG))
                             else Inr (JObj (filter (\<lambda>(k, v). k \<notin> {''max_keys'', ''padding''})
                                              (AList.update ''max_keys'' (JInt 5) DEFAULT_CONFIG)))),
         json_dumps = (\<lambda>j. ''full''),
         update_from_seq = (\<lambda>d other. (d, Some TypeError))\<rparr>
        (save_config
           \<lparr>json_loads = (\<lambda>text. if text = ''full'' then Inr (JObj (AList.update ''max_keys'' (JInt 5) DEFAULT_CONFIG))
                             else Inr (JObj (filter (\<lambda>(k, v). k \<notin> {''max_keys'', ''padding''})
                                              (AList.update ''max_keys'' (JInt 5) DEFAULT_CONFIG)))),
            json_dumps = (\<lambda>j. ''full''),
            update_from_seq = (\<lambda>d other. (d, Some TypeError))\<rparr>
           (AList.update ''max_keys'' (JInt 5) DEFAULT_CONFIG)) = Inr c \<and>
      map_of c ''max_keys'' = Some (JInt 5) \<and> map_of c ''padding'' = Some (JInt 15)) \<and>
   (\<exists>c. load_config
        \<lparr>json_loads = (\<lambda>text. if text = ''full'' then Inr (JObj (AList.update ''max_keys'' (JInt 5) DEFAULT_CONFIG))
                             else Inr (JObj (filter (\<lambda>(k, v). k \<notin> {''max_keys'', ''padding''})
                                              (AList.update ''max_keys'' (JInt 5) DEFAULT_CONFIG)))),
         json_dumps = (\<lambda>j. ''full''),
         update_from_seq = (\<lambda>d other. (d, Some TypeError))\<rparr>
        (Some ''partial'') = Inr c \<and>
      map_of c ''max_keys'' = Some (JInt 10) \<and> map_of c ''font_size'' = Some (JInt 20))"
proof -
  define cfg where "cfg = AList.update ''max_keys'' (JInt 5) DEFAULT_CONFIG"
  define R where "R = {''max_keys'', ''padding''}"
  define L where "L = \<lparr>json_loads = (\<lambda>text. if text = ''full'' then Inr (JObj cfg)
                             else Inr (JObj (filter (\<lambda>(k, v). k \<notin> R) cfg))),
         json_dumps = (\<lambda>j. ''full''),
         update_from_seq = (\<lambda>d other. (d, Some TypeError))\<rparr>"
  have dd: "distinct (map fst DEFAULT_CONFIG)" by code_simp
  have d: "distinct (map fst cfg)" unfolding cfg_def by (rule distinct_update[OF dd])
  have mem: "''max_keys'' \<in> fst ` set DEFAULT_CONFIG" by (simp add: DEFAULT_CONFIG_def)
  have keys: "set (map fst cfg) = set (map fst DEFAULT_CONFIG)"
    using mem by (auto simp: cfg_def dom_update)
  have ne: "json_dumps L (JObj cfg) \<noteq> []" by (simp add: L_def)
  have rt: "json_loads L (json_dumps L (JObj cfg)) = Inr (JObj cfg)" by (simp add: L_def)
  have ne': "''partial'' \<noteq> []" by simp
  have sub: "json_loads L ''partial'' = Inr (JObj (filter (\<lambda>(k, v). k \<notin> R) cfg))"
    by (simp add: L_def)
  from config_roundtrip[OF d keys ne rt ne' sub]
  obtain c c' where c: "load_config L (save_config L cfg) = Inr c" "map_of c = map_of cfg"
    and c': "load_config L (Some ''partial'') = Inr c'"
      "\<forall>k. map_of c' k = (if k \<in> R then map_of DEFAULT_CONFIG k else map_of cfg k)"
    by blast
  have v1: "map_of cfg ''max_keys'' = Some (JInt 5)" by (simp add: cfg_def update_conv')
  have v2: "map_of cfg ''padding'' = Some (JInt 15)"
    by (simp add: cfg_def update_conv' DEFAULT_CONFIG_def)
  have v3: "map_of cfg ''font_size'' = Some (JInt 20)"
    by (simp add: cfg_def update_conv' DEFAULT_CONFIG_def)
  have v4: "map_of DEFAULT_CONFIG ''max_keys'' = Some (JInt 10)" by (simp add: DEFAULT_CONFIG_def)
  have a: "\<exists>c. load_config L (save_config L cfg) = Inr c \<and>
      map_of c ''max_keys'' = Some (JInt 5) \<and> map_of c ''padding'' = Some (JInt 15)"
    using c v1 v2 by auto
  have "map_of c' ''max_keys'' = Some (JInt 10)" "map_of c' ''font_size'' = Some (JInt 20)"
    using c'(2) v3 v4 by (simp_all add: R_def)
  with c'(1) have b: "\<exists>c. load_config L (Some ''partial'') = Inr c \<and>
      map_of c ''max_keys'' = Some (JInt 10) \<and> map_of c ''font_size'' = Some (JInt 20)" by blast
  from a b show ?thesis unfolding L_def cfg_def R_def by blast
qed

section \<open>Consistency of the display state\<close>

lemma py_in_iff: "py_in k al \<longleftrightarrow> k \<in> fst ` set al"
  by (simp add: py_in_def map_of_eq_None_iff)

lemma delete_if_py_in:
  "(if py_in k al then AList.delete k al else al) = AList.delete k al"
  by (simp add: py_in_iff)

lemma update_new: "k \<notin> fst ` set al \<Longrightarrow> AList.update k v al = al @ [(k, v)]"
  by (induction al) auto

lemma set_delete: "set (AList.delete k al) = {p \<in> set al. fst p \<noteq> k}"
  by (auto simp: AList.delete_eq)

lemma distinct_snd_delete:
  "distinct (map snd al) \<Longrightarrow> distinct (map snd (AList.delete k al))"
  by (simp add: AList.delete_eq distinct_map_filter)

lemma find_key_Some:
  "b \<in> snd ` set al \<Longrightarrow> \<exists>k. find_key al b = Some k \<and> (k, b) \<in> set al"
  by (induction al b rule: find_key.induct) auto

lemma vals_delete:
  assumes dk: "distinct (map fst al)" and dv: "distinct (map snd al)"
    and kb: "(k, b) \<in> set al"
  shows "snd ` set (AList.delete k al) = snd ` set al - {b}"
proof -
  from dv have inj: "inj_on snd (set al)" by (simp add: distinct_map)
  from dk have injk: "inj_on fst (set al)" by (simp add: distinct_map)
  show ?thesis
  proof (intro set_eqI iffI)
    fix x assume "x \<in> snd ` set (AList.delete k al)"
    then obtain k' where p: "(k', x) \<in> set al" "k' \<noteq> k" by (auto simp: set_delete)
    have "x \<noteq> b"
    proof
      assume "x = b"
      with inj_onD[OF inj, of "(k', x)" "(k, b)"] p(1) kb have "(k', x) = (k, b)" by simp
      with p(2) show False by simp
    qed
    with p(1) show "x \<in> snd ` set al - {b}" by force
  next
    fix x assume "x \<in> snd ` set al - {b}"
    then obtain k' where p: "(k', x) \<in> set al" "x \<noteq> b" by auto
    have "k' \<noteq> k"
    proof
      assume "k' = k"
      with inj_onD[OF injk, of "(k', x)" "(k, b)"] p(1) kb have "(k', x) = (k, b)" by simp
      with p(2) show False by simp
    qed
    with p(1) show "x \<in> snd ` set (AList.delete k al)" by (force simp: set_delete)
  qed
qed

lemma wf_drop_entry:
  assumes wf: "well_formed s" and kb: "(k, b) \<in> set (active_keys s)"
    and a: "active_keys s' = AList.delete k (active_keys s)"
    and f: "fade_timers s' = AList.delete k (fade_timers s)"
    and kbs: "key_bubbles s' = remove1 b (key_bubbles s)"
    and n: "next_ref s' = next_ref s"
  shows "well_formed s'"
proof -
  from wf have c: "snd ` set (active_keys s) = set (key_bubbles s)"
    and dv: "distinct (map snd (active_keys s))"
    and dk: "distinct (map fst (active_keys s))"
    and db: "distinct (key_bubbles s)"
    and ft: "fst ` set (fade_timers s) \<subseteq> fst ` set (active_keys s)"
    and fr: "list_all (\<lambda>b. b < next_ref s) (key_bubbles s)"
    and ne: "[] \<notin> fst ` set (active_keys s)"
    by (simp_all add: well_formed_def consistent_def)
  have 1: "snd ` set (active_keys s') = set (key_bubbles s')"
    using vals_delete[OF dk dv kb] c db by (simp add: a kbs)
  have 2: "distinct (map snd (active_keys s'))" using dv by (simp add: a distinct_snd_delete)
  have 3: "distinct (map fst (active_keys s'))" using dk by (simp add: a distinct_delete)
  have 4: "distinct (key_bubbles s')" using db by (simp add: kbs)
  have 5: "fst ` set (fade_timers s') \<subseteq> fst ` set (active_keys s')"
    using ft by (auto simp: a f set_delete)
  have 6: "list_all (\<lambda>b. b < next_ref s') (key_bubbles s')"
    using fr by (auto simp: kbs n list_all_iff dest: notin_set_remove1)
  have 7: "[] \<notin> fst ` set (active_keys s')" using ne by (auto simp: a set_delete)
  from 1 2 3 4 5 6 7 show ?thesis by (simp add: well_formed_def consistent_def)
qed

lemma wf_timers:
  assumes wf: "well_formed s"
    and "active_keys s' = active_keys s" and "key_bubbles s' = key_bubbles s"
    and "next_ref s' = next_ref s"
    and "fst ` set (fade_timers s') \<subseteq> fst ` set (active_keys s)"
  shows "well_formed s'"
  using assms by (simp add: well_formed_def consistent_def)

lemma wf_append:
  assumes wf: "well_formed s" and new: "k \<notin> fst ` set (active_keys s)" and k: "k \<noteq> []"
    and a: "active_keys s' = AList.update k (next_ref s) (active_keys s)"
    and kbs: "key_bubbles s' = key_bubbles s @ [next_ref s]"
    and n: "next_ref s' = Suc (next_ref s)"
    and f: "fade_timers s' = fade_timers s"
  shows "well_formed s'"
proof -
  from wf have c: "snd ` set (active_keys s) = set (key_bubbles s)"
    and dv: "distinct (map snd (active_keys s))"
    and dk: "distinct (map fst (active_keys s))"
    and db: "distinct (key_bubbles s)"
    and ft: "fst ` set (fade_timers s) \<subseteq> fst ` set (active_keys s)"
    and fr: "list_all (\<lambda>b. b < next_ref s) (key_bubbles s)"
    and ne: "[] \<notin> fst ` set (active_keys s)"
    by (simp_all add: well_formed_def consistent_def)
  have a': "active_keys s' = active_keys s @ [(k, next_ref s)]"
    using new by (simp add: a update_new)
  from fr have fresh: "next_ref s \<notin> set (key_bubbles s)" by (auto simp: list_all_iff)
  have 1: "snd ` set (active_keys s') = set (key_bubbles s')" using c by (auto simp: a' kbs)
  have 2: "distinct (map snd (active_keys s'))" using dv fresh c by (auto simp: a')
  have 3: "distinct (map fst (active_keys s'))" using dk new by (auto simp: a')
  have 4: "distinct (key_bubbles s')" using db fresh by (simp add: kbs)
  have 5: "fst ` set (fade_timers s') \<subseteq> fst ` set (active_keys s')"
    using ft by (auto simp: a' f)
  have 6: "list_all (\<lambda>b. b < next_ref s') (key_bubbles s')"
    using fr by (auto simp: kbs n list_all_iff less_Suc_eq)
  have 7: "[] \<notin> fst ` set (active_keys s')" using ne k by (auto simp: a')
  from 1 2 3 4 5 6 7 show ?thesis by (simp add: well_formed_def consistent_def)
qed

lemma wf_evict_one:
  assumes wf: "well_formed s" and br: "key_bubbles s = b # rest"
  shows "well_formed (evict_one s b rest)"
proof -
  from wf br have "b \<in> snd ` set (active_keys s)"
    by (simp add: well_formed_def consistent_def)
  from find_key_Some[OF this] obtain k where
    k: "find_key (active_keys s) b = Some k" "(k, b) \<in> set (active_keys s)" by blast
  from wf k(2) have kne: "k \<noteq> []" by (force simp: well_formed_def)
  show ?thesis
    by (rule wf_drop_entry[OF wf k(2)])
       (simp_all add: evict_one_def Let_def k(1) kne br py_in_iff)
qed

lemma wf_evict: "well_formed s \<Longrightarrow> evict s = Inr s' \<Longrightarrow> well_formed s'"
proof (induction s rule: evict.induct)
  case (1 s)
  show ?case
  proof (cases "int (length (key_bubbles s)) > max_keys (config s)")
    case False
    with "1.prems" show ?thesis by (simp add: evict.simps)
  next
    case True
    show ?thesis
    proof (cases "key_bubbles s")
      case Nil
      with True "1.prems"(2) show ?thesis by (simp add: evict.simps)
    next
      case (Cons b rest)
      have "evict s = evict (evict_one s b rest)"
        using True Cons by (subst evict.simps) simp
      with "1.prems"(2) have "evict (evict_one s b rest) = Inr s'" by simp
      from "1.IH"[OF True Cons wf_evict_one[OF "1.prems"(1) Cons] this] show ?thesis .
    qed
  qed
qed

lemma wf_add_key:
  assumes wf: "well_formed s" and k: "key_name \<noteq> []" and r: "add_key s key_name = Inr s'"
  shows "well_formed s'"
proof (cases "map_of (active_keys s) key_name")
  case (Some b)
  with r have s': "s' = s\<lparr>store := (store s)(b := (store s b)\<lparr>opacity := 1\<rparr>),
                 fade_timers := AList.delete key_name (fade_timers s)\<rparr>"
    by (simp add: add_key_def delete_if_py_in)
  from wf have "fst ` set (fade_timers s) \<subseteq> fst ` set (active_keys s)"
    by (simp add: well_formed_def consistent_def)
  then have "fst ` set (AList.delete key_name (fade_timers s)) \<subseteq> fst ` set (active_keys s)"
    by (auto simp: set_delete)
  then show ?thesis by (intro wf_timers[OF wf]) (simp_all add: s')
next
  case None
  define s1 where "s1 = s\<lparr>store := (store s)(next_ref s := \<lparr>key_text = key_name, opacity = 1\<rparr>),
              next_ref := Suc (next_ref s),
              key_bubbles := key_bubbles s @ [next_ref s],
              active_keys := AList.update key_name (next_ref s) (active_keys s)\<rparr>"
  from None r have ev: "evict s1 = Inr s'" by (simp add: add_key_def Let_def s1_def)
  from None have new: "key_name \<notin> fst ` set (active_keys s)"
    by (simp add: map_of_eq_None_iff)
  have "well_formed s1"
    by (rule wf_append[OF wf new k]) (simp_all add: s1_def)
  from wf_evict[OF this ev] show ?thesis .
qed


lemma wf_start_fade: "well_formed s \<Longrightarrow> well_formed (start_fade s k)"
proof -
  assume wf: "well_formed s"
  then have ft: "fst ` set (fade_timers s) \<subseteq> fst ` set (active_keys s)"
    by (simp add: well_formed_def consistent_def)
  have "fst ` set (fade_timers (start_fade s k)) \<subseteq> fst ` set (active_keys s)"
    using ft by (auto simp: start_fade_def py_in_iff dom_update)
  then show ?thesis
    by (intro wf_timers[OF wf]) (simp_all add: start_fade_def)
qed

lemma wf_release_key: "well_formed s \<Longrightarrow> well_formed (release_key s k)"
proof -
  assume wf: "well_formed s"
  show ?thesis
  proof (cases "map_of (combo_key_map s) k")
    case None
    then show ?thesis using wf_start_fade[OF wf] by (simp add: release_key_def)
  next
    case (Some combo)
    have w: "well_formed (start_fade s combo)" by (rule wf_start_fade[OF wf])
    from w have "fst ` set (fade_timers (start_fade s combo))
        \<subseteq> fst ` set (active_keys (start_fade s combo))"
      by (simp add: well_formed_def consistent_def)
    then show ?thesis
      using Some by (intro wf_timers[OF w]) (simp_all add: release_key_def Let_def)
  qed
qed

lemma wf_remove_part: "well_formed s \<Longrightarrow> well_formed (remove_part part s)"
proof -
  assume wf: "well_formed s"
  show ?thesis
  proof (cases "map_of (active_keys s) part")
    case None
    then show ?thesis using wf by (simp add: remove_part_def)
  next
    case (Some b)
    then have kb: "(part, b) \<in> set (active_keys s)" by (rule map_of_SomeD)
    show ?thesis
      by (rule wf_drop_entry[OF wf kb])
         (simp_all add: remove_part_def Some py_in_iff remove1_idem)
  qed
qed

lemma wf_remove_parts: "well_formed s \<Longrightarrow> well_formed (fold remove_part parts s)"
  by (induction parts arbitrary: s) (simp_all add: wf_remove_part)

lemma wf_show_combo:
  assumes wf: "well_formed s" and c: "combo \<noteq> []" and r: "show_combo s combo = Inr s'"
  shows "well_formed s'"
proof -
  define s1 where "s1 = fold remove_part (butlast (py_split CHR ''+'' combo)) s"
  define s2 where "s2 = s1\<lparr>combo_key_map :=
      fold (\<lambda>part m. AList.update part combo m) (py_split CHR ''+'' combo) (combo_key_map s1)\<rparr>"
  have w1: "well_formed s1" unfolding s1_def by (rule wf_remove_parts[OF wf])
  then have "fst ` set (fade_timers s1) \<subseteq> fst ` set (active_keys s1)"
    by (simp add: well_formed_def consistent_def)
  then have w2: "well_formed s2"
    by (intro wf_timers[OF w1]) (simp_all add: s2_def)
  from r have "add_key s2 combo = Inr s'"
    by (simp add: show_combo_def Let_def s2_def s1_def)
  from wf_add_key[OF w2 c this] show ?thesis .
qed

lemma wf_fade_key:
  assumes wf: "well_formed s" and r: "fade_key s k = Inr s'"
  shows "well_formed s'"
proof (cases "map_of (active_keys s) k")
  case None
  from wf have ft: "fst ` set (fade_timers s) \<subseteq> fst ` set (active_keys s)"
    by (simp add: well_formed_def consistent_def)
  have "fst ` set (AList.delete k (fade_timers s)) \<subseteq> fst ` set (fade_timers s)"
    by (rule dom_delete_subset)
  with ft have sub: "fst ` set (AList.delete k (fade_timers s)) \<subseteq> fst ` set (active_keys s)"
    by (rule subset_trans[rotated])
  show ?thesis
  proof (cases "py_in k (fade_timers s)")
    case True
    with None r have "s' = s\<lparr>fade_timers := AList.delete k (fade_timers s)\<rparr>"
      by (simp add: fade_key_def)
    with sub show ?thesis by (intro wf_timers[OF wf]) simp_all
  next
    case False
    with None r have "s' = s" by (simp add: fade_key_def)
    with wf show ?thesis by simp
  qed
next
  case (Some b)
  then have kb: "(k, b) \<in> set (active_keys s)" by (rule map_of_SomeD)
  show ?thesis
  proof (cases "opacity (store s b) - fade_rate (config s) \<le> 0")
    case True
    with Some r have t: "py_in k (fade_timers s)"
      by (auto simp: fade_key_def Let_def split: if_splits)
    show ?thesis
      using Some r True t
      by (intro wf_drop_entry[OF wf kb]) (auto simp: fade_key_def Let_def remove1_idem)
  next
    case False
    from wf have ft: "fst ` set (fade_timers s) \<subseteq> fst ` set (active_keys s)"
      by (simp add: well_formed_def consistent_def)
    from Some r False have "s' = s\<lparr>store := (store s)(b := (store s b)
        \<lparr>opacity := opacity (store s b) - fade_rate (config s)\<rparr>)\<rparr>"
      by (simp add: fade_key_def Let_def)
    with ft show ?thesis by (intro wf_timers[OF wf]) simp_all
  qed
qed

lemma wf_update_config: "well_formed (update_config s cfg)"
  by (simp add: well_formed_def consistent_def update_config_def)

lemma wf_init: "well_formed (KeyOverlay_init cfg)"
  by (simp add: well_formed_def consistent_def KeyOverlay_init_def)

lemma well_formed_consistent: "well_formed s \<Longrightarrow> consistent s"
  by (simp add: well_formed_def)

text \<open>
  Together: from a well-formed state, every operation that is given non-empty names and
  returns leaves a well-formed, hence consistent, state. A new overlay is well-formed.
\<close>

lemma well_formed_preserved:
  assumes "well_formed s"
  shows "(key_name \<noteq> [] \<and> add_key s key_name = Inr s' \<longrightarrow> well_formed s') \<and>
         well_formed (release_key s key_name) \<and>
         (combo \<noteq> [] \<and> show_combo s combo = Inr s' \<longrightarrow> well_formed s') \<and>
         (fade_key s key_name = Inr s' \<longrightarrow> well_formed s') \<and>
         well_formed (update_config s cfg)"
proof (intro conjI impI)
  assume "key_name \<noteq> [] \<and> add_key s key_name = Inr s'"
  then show "well_formed s'" using wf_add_key[OF assms] by blast
next
  show "well_formed (release_key s key_name)" by (rule wf_release_key[OF assms])
next
  assume "combo \<noteq> [] \<and> show_combo s combo = Inr s'"
  then show "well_formed s'" using wf_show_combo[OF assms] by blast
next
  assume "fade_key s key_name = Inr s'"
  then show "well_formed s'" by (rule wf_fade_key[OF assms])
next
  show "well_formed (update_config s cfg)" by (rule wf_update_config)
qed

lemma wf_apply_op:
  assumes wf: "well_formed s" and n: "named x" and r: "apply_op s x = Inr s'"
  shows "well_formed s'"
proof (cases x)
  case (AddKey k)
  with n r show ?thesis using wf_add_key[OF wf] by simp
next
  case (ReleaseKey k)
  with r show ?thesis using wf_release_key[OF wf] by auto
next
  case (ShowCombo c)
  with n r show ?thesis using wf_show_combo[OF wf] by simp
next
  case (TimerTick k)
  with r wf show ?thesis using wf_fade_key[OF wf] by (auto split: if_splits)
next
  case (UpdateConfig cfg)
  with r show ?thesis using wf_update_config by auto
qed

lemma wf_run_ops:
  "well_formed s \<Longrightarrow> list_all named xs \<Longrightarrow> run_ops s xs = Inr s' \<Longrightarrow> well_formed s'"
proof (induction xs arbitrary: s)
  case Nil
  then show ?case by simp
next
  case (Cons x xs)
  from Cons.prems(3) obtain s1 where s1: "apply_op s x = Inr s1" "run_ops s1 xs = Inr s'"
    by (auto split: sum.splits)
  from Cons.prems(2) have nx: "named x" and nxs: "list_all named xs" by simp_all
  from wf_apply_op[OF Cons.prems(1) nx s1(1)] have "well_formed s1" .
  from Cons.IH[OF this nxs s1(2)] show ?case .
qed

lemma add_key_returns:
  assumes "0 \<le> max_keys (config s)"
  shows "\<exists>s'. add_key s key_name = Inr s' \<and> config s' = config s"
proof (cases "map_of (active_keys s) key_name")
  case (Some b)
  then show ?thesis by (simp add: add_key_def)
next
  case None
  let ?s1 = "s\<lparr>store := (store s)(next_ref s := \<lparr>key_text = key_name, opacity = 1\<rparr>),
              next_ref := Suc (next_ref s),
              key_bubbles := key_bubbles s @ [next_ref s],
              active_keys := AList.update key_name (next_ref s) (active_keys s)\<rparr>"
  have "0 \<le> max_keys (config ?s1)" using assms by simp
  from evict_drop[OF this] obtain s' where "evict ?s1 = Inr s'" "config s' = config ?s1"
    by blast
  then show ?thesis using add_key_new[OF None] by simp
qed

lemma config_remove_parts: "config (fold remove_part parts s) = config s"
  by (induction parts arbitrary: s) (simp_all add: remove_part_def split: option.split)

lemma config_release_key: "config (release_key s k) = config s"
  by (simp add: release_key_def Let_def split: option.split)

lemma show_combo_returns:
  assumes "0 \<le> max_keys (config s)"
  shows "\<exists>s'. show_combo s combo = Inr s' \<and> config s' = config s"
proof -
  define s2 where "s2 = (fold remove_part (butlast (py_split CHR ''+'' combo)) s)
      \<lparr>combo_key_map := fold (\<lambda>part m. AList.update part combo m) (py_split CHR ''+'' combo)
         (combo_key_map (fold remove_part (butlast (py_split CHR ''+'' combo)) s))\<rparr>"
  have c: "config s2 = config s" by (simp add: s2_def config_remove_parts)
  have e: "show_combo s combo = add_key s2 combo" by (simp add: show_combo_def Let_def s2_def)
  from add_key_returns[of s2 combo] assms c show ?thesis by (simp add: e)
qed

lemma timer_tick_returns:
  assumes "py_in k (fade_timers s)"
  shows "\<exists>s'. fade_key s k = Inr s' \<and> config s' = config s"
  using assms by (cases "map_of (active_keys s) k") (simp_all add: fade_key_def Let_def)

lemma apply_op_returns:
  assumes "0 \<le> max_keys (config s)" and "not_negative x"
  shows "\<exists>s'. apply_op s x = Inr s' \<and> 0 \<le> max_keys (config s')"
proof (cases x)
  case (AddKey k)
  with add_key_returns[OF assms(1), of k] assms(1) show ?thesis by auto
next
  case (ReleaseKey k)
  with assms(1) show ?thesis by (simp add: config_release_key)
next
  case (ShowCombo c)
  with show_combo_returns[OF assms(1), of c] assms(1) show ?thesis by auto
next
  case (TimerTick k)
  show ?thesis
  proof (cases "py_in k (fade_timers s)")
    case True
    with timer_tick_returns[OF True] TimerTick assms(1) show ?thesis by auto
  next
    case False
    with TimerTick assms(1) show ?thesis by simp
  qed
next
  case (UpdateConfig cfg)
  with assms(2) show ?thesis by (simp add: update_config_def)
qed

lemma run_ops_returns:
  "0 \<le> max_keys (config s) \<Longrightarrow> list_all not_negative xs \<Longrightarrow> \<exists>s'. run_ops s xs = Inr s'"
proof (induction xs arbitrary: s)
  case Nil
  then show ?case by simp
next
  case (Cons x xs)
  from Cons.prems(2) have nx: "not_negative x" and nxs: "list_all not_negative xs" by simp_all
  from apply_op_returns[OF Cons.prems(1) nx] obtain s1 where
    s1: "apply_op s x = Inr s1" "0 \<le> max_keys (config s1)" by blast
  from Cons.IH[OF s1(2) nxs] show ?case using s1(1) by simp
qed

text \<open>
  C10. Run any sequence of overlay operations on a new overlay: \<^verbatim>\<open>add_key\<close>, \<^verbatim>\<open>release_key\<close>
  (and with it \<^verbatim>\<open>_start_fade\<close>), \<^verbatim>\<open>show_combo\<close>, the timer's \<^verbatim>\<open>fade_key\<close> and \<^verbatim>\<open>update_config\<close>,
  with the non-empty names the listeners emit. After every one of them the display state
  is consistent: the values of \<^verbatim>\<open>active_keys\<close> are exactly the elements of \<^verbatim>\<open>key_bubbles\<close>,
  one key per bubble and one bubble per key, and every key with a fade timer is in
  \<^verbatim>\<open>active_keys\<close>. A direct call of \<^verbatim>\<open>fade_key\<close> for any key keeps it so whenever it
  returns. While no \<^verbatim>\<open>max_keys\<close> is negative, no operation of the sequence raises.
\<close>

theorem display_state_stays_consistent:
  assumes n: "list_all named ops"
  shows "(\<forall>s. run_ops (KeyOverlay_init cfg) ops = Inr s \<longrightarrow>
            consistent s \<and>
            (\<forall>key_name s'. fade_key s key_name = Inr s' \<longrightarrow> consistent s')) \<and>
         (0 \<le> max_keys cfg \<and> list_all not_negative ops \<longrightarrow>
            (\<exists>s. run_ops (KeyOverlay_init cfg) ops = Inr s))"
proof (intro conjI allI impI)
  fix s assume r: "run_ops (KeyOverlay_init cfg) ops = Inr s"
  from wf_run_ops[OF wf_init n r] have wf: "well_formed s" .
  then show "consistent s" by (rule well_formed_consistent)
  fix key_name s' assume "fade_key s key_name = Inr s'"
  from wf_fade_key[OF wf this] show "consistent s'" by (rule well_formed_consistent)
next
  assume a: "0 \<le> max_keys cfg \<and> list_all not_negative ops"
  then have "0 \<le> max_keys (config (KeyOverlay_init cfg))" by (simp add: KeyOverlay_init_def)
  from run_ops_returns[OF this] a show "\<exists>s. run_ops (KeyOverlay_init cfg) ops = Inr s"
    by blast
qed

theorem display_state_stays_consistent_witness:
  "list_all named
     [AddKey ''Ctrl'', ShowCombo ''Ctrl+S'', ReleaseKey ''S'', TimerTick ''Ctrl+S'', AddKey ''A''] \<and>
   (\<exists>s. run_ops (KeyOverlay_init \<lparr>max_keys = 1, fade_speed = 1 / 2\<rparr>)
          [AddKey ''Ctrl'', ShowCombo ''Ctrl+S'', ReleaseKey ''S'', TimerTick ''Ctrl+S'',
           AddKey ''A''] = Inr s \<and>
        key_bubbles s = [2] \<and> active_keys s = [(''A'', 2)] \<and> fade_timers s = [] \<and>
        consistent s)"
proof -
  let ?ops = "[AddKey ''Ctrl'', ShowCombo ''Ctrl+S'', ReleaseKey ''S'', TimerTick ''Ctrl+S'',
               AddKey ''A'']"
  let ?cfg = "\<lparr>max_keys = 1, fade_speed = 1 / 2\<rparr>"
  have n: "list_all named ?ops" by simp
  have run: "\<exists>s. run_ops (KeyOverlay_init ?cfg) ?ops = Inr s \<and>
        key_bubbles s = [2] \<and> active_keys s = [(''A'', 2)] \<and> fade_timers s = []"
    by (simp add: KeyOverlay_init_def add_key_def evict.simps evict_one_def py_in_def
        show_combo_def remove_part_def release_key_def start_fade_def fade_key_def
        fade_rate_def)
  then obtain s where s: "run_ops (KeyOverlay_init ?cfg) ?ops = Inr s"
    "key_bubbles s = [2]" "active_keys s = [(''A'', 2)]" "fade_timers s = []" by blast
  from display_state_stays_consistent[OF n, of ?cfg] s(1) have "consistent s" by blast
  with n s show ?thesis by blast
qed

text \<open>Of the names the listeners emit, the labels of \<^verbatim>\<open>get_key_from_vk\<close> are not empty.\<close>

lemma get_key_from_vk_not_empty:
  assumes "get_key_from_vk key = Inr (Some label)"
  shows "label \<noteq> []"
proof -
  have dg: "digits n \<noteq> []" for n by (subst digits.simps) simp
  have ps: "py_str i \<noteq> []" for i by (simp add: py_str_def dg)
  have ch: "returning (py_chr i) = Inr (Some l) \<Longrightarrow> l \<noteq> []" for i l
    by (auto simp: returning_def py_chr_def utf8_def split: if_splits)
  have np: "map_of numpad_map i = Some l \<Longrightarrow> l \<noteq> []" for i l
    by (auto simp: numpad_map_def split: if_splits)
  have vm: "map_of vk_map i = Some l \<Longrightarrow> l \<noteq> []" for i l
    by (auto simp: vk_map_def split: if_splits)
  from assms show ?thesis
    by (auto simp: get_key_from_vk_def Let_def ps dest: ch np vm
        split: option.splits if_splits)
qed

text \<open>
  The names have to be non-empty. In the eviction loop of \<^verbatim>\<open>add_key\<close> the test
  \<^verbatim>\<open>if key_to_remove:\<close> takes the key \<^verbatim>\<open>''\<close> it has found for "no key found": called with
  the empty name, which no listener emits, \<^verbatim>\<open>add_key\<close> would leave the evicted bubble's
  entry in \<^verbatim>\<open>active_keys\<close>.
\<close>

lemma empty_key_name_breaks_consistency:
  "consistent (KeyOverlay_init \<lparr>max_keys = 1, fade_speed = 1 / 2\<rparr>) \<and>
   (\<exists>s. add_keys (KeyOverlay_init \<lparr>max_keys = 1, fade_speed = 1 / 2\<rparr>) [[], ''A''] = Inr s \<and>
        key_bubbles s = [1] \<and>
        active_keys s = [([], 0), (''A'', 1)] \<and>
        \<not> consistent s)"
proof -
  have "consistent (KeyOverlay_init \<lparr>max_keys = 1, fade_speed = 1 / 2\<rparr>)"
    by (simp add: consistent_def KeyOverlay_init_def)
  moreover have "add_keys (KeyOverlay_init \<lparr>max_keys = 1, fade_speed = 1 / 2\<rparr>) [[], ''A''] =
      Inr \<lparr>config = \<lparr>max_keys = 1, fade_speed = 1 / 2\<rparr>, key_bubbles = [1], fade_timers = [],
           active_keys = [([], 0), (''A'', 1)], combo_key_map = [],
           store = (\<lambda>_. \<lparr>key_text = [], opacity = 0\<rparr>)
              (0 := \<lparr>key_text = [], opacity = 1\<rparr>, 1 := \<lparr>key_text = ''A'', opacity = 1\<rparr>),
           next_ref = 2\<rparr>"
    by (simp add: KeyOverlay_init_def add_key_def evict.simps evict_one_def py_in_def)
  ultimately show ?thesis by (simp add: consistent_def)
qed

end
